theory Spec2Isabelle
  imports Main "HOL-Library.Word"
begin

section \<open>The simple blocks of leansdr/generic.h\<close>

text \<open>
  Every block of \<^verbatim>\<open>generic.h\<close> is a C++ struct with a \<^verbatim>\<open>run()\<close> method that a
  scheduler calls again and again. A block is modelled as a record of its fields, and
  \<^verbatim>\<open>run()\<close> as a function from the record before the call to an outcome: the record
  after the call, or the way the call did not come back.
\<close>

subsection \<open>Outcomes\<close>

text \<open>
  \<^verbatim>\<open>fatal(s)\<close> and \<^verbatim>\<open>fail(s)\<close> print \<^verbatim>\<open>s\<close> and end the process: \<open>Fatal s\<close>.
  \<open>UB s\<close> is an execution the C++ standard gives no meaning to (a division by zero,
  an access outside an array). \<open>Hangs\<close> is a call that never returns: a system call
  that blocks for ever, or a loop that never ends.
\<close>

datatype 'a outcome = Done 'a | Fatal string | UB string | Hangs

type_synonym byte = "8 word"

text \<open>An element of a stream, where the code looks at its bytes: \<^verbatim>\<open>sizeof(T)\<close> bytes.\<close>

type_synonym elem = "byte list"

subsection \<open>Stream endpoints\<close>

text \<open>
  Modelled from the spec: the stream endpoints \<^verbatim>\<open>pipebuf\<close>, \<^verbatim>\<open>pipereader\<close> and
  \<^verbatim>\<open>pipewriter\<close> are declared in \<^verbatim>\<open>leansdr/framework.h\<close>, which is not among the
  sources. Section 6 of the spec gives their contract: \<^verbatim>\<open>readable()\<close> is the number of
  elements available, \<^verbatim>\<open>rd()\<close> the handle to the next readable region, \<^verbatim>\<open>read(n)\<close>
  commits the consumption of n elements; \<^verbatim>\<open>writable()\<close> is the capacity available,
  \<^verbatim>\<open>wr()\<close> the handle to the next writable region, \<^verbatim>\<open>written(n)\<close> commits
  the production of n elements.

  A reader is the list of elements it can read, oldest first.
\<close>

record 'a pipereader =
  rd :: "'a list"

definition readable :: "'a pipereader \<Rightarrow> nat" where
  "readable p = length (rd p)"

definition read :: "nat \<Rightarrow> 'a pipereader \<Rightarrow> 'a pipereader" where
  "read n p = p\<lparr>rd := drop n (rd p)\<rparr>"

text \<open>
  Modelled from the spec: a writer is the list of elements committed so far, oldest
  first, and the capacity left. \<open>written es\<close> stands for storing the elements \<open>es\<close> at
  \<^verbatim>\<open>wr()\<close> and then calling \<^verbatim>\<open>written(length es)\<close>; \<open>write_elem e\<close> is
  \<^verbatim>\<open>write(e)\<close>, which stores and commits one element.
\<close>

record 'a pipewriter =
  buf :: "'a list"
  room :: nat

definition writable :: "'a pipewriter \<Rightarrow> nat" where
  "writable p = room p"

definition written :: "'a list \<Rightarrow> 'a pipewriter \<Rightarrow> 'a pipewriter" where
  "written es p = p\<lparr>buf := buf p @ es, room := room p - length es\<rparr>"

definition write_elem :: "'a \<Rightarrow> 'a pipewriter \<Rightarrow> 'a pipewriter" where
  "write_elem e p = written [e] p"

text \<open>
  The first \<open>n\<close> elements of \<open>w\<close> bytes each that a region of raw bytes holds: what a
  consumer sees once \<open>n\<close> elements of a byte-filled region are committed.
\<close>

definition elems :: "nat \<Rightarrow> nat \<Rightarrow> byte list \<Rightarrow> elem list" where
  "elems w n bs = map (\<lambda>i. take w (drop (i * w) bs)) [0..<n]"

subsection \<open>serializer\<close>

text \<open>
  \<^verbatim>\<open>serializer<Tin,Tout>\<close>. The constructor takes the two element sizes
  \<^verbatim>\<open>sizeof(Tin)\<close> and \<^verbatim>\<open>sizeof(Tout)\<close> (both at least 1 in C++ and far below
  \<open>2^31\<close>, so that neither the conversion to \<^verbatim>\<open>int\<close> nor a product wraps) and the
  two streams. The initialisers compute \<^verbatim>\<open>nin\<close> and \<^verbatim>\<open>nout\<close>, then the body
  checks them.
\<close>

record serializer =
  nin :: nat
  nout :: nat
  ser_in :: "elem pipereader"
  ser_out :: "elem pipewriter"

definition serializer_ctor ::
  "nat \<Rightarrow> nat \<Rightarrow> elem pipereader \<Rightarrow> elem pipewriter \<Rightarrow> serializer outcome" where
  "serializer_ctor sizeof_Tin sizeof_Tout inp outp =
     (let n_in = max 1 (sizeof_Tin div sizeof_Tout);
          n_out = max 1 (sizeof_Tout div sizeof_Tin)
      in if n_in * sizeof_Tin \<noteq> n_out * sizeof_Tout
         then Fatal ''serializer: incompatible sizes''
         else Done \<lparr>nin = n_in, nout = n_out, ser_in = inp, ser_out = outp\<rparr>)"

text \<open>
  \<^verbatim>\<open>run()\<close>: while a group is readable and writable, \<^verbatim>\<open>memcpy\<close> copies
  \<^verbatim>\<open>nout*sizeof(Tout)\<close> bytes from the readable region to the writable region, then
  \<^verbatim>\<open>nin\<close> elements are consumed and \<^verbatim>\<open>nout\<close> committed. The loop ends because
  \<^verbatim>\<open>nin\<close> is at least 1; with \<^verbatim>\<open>nin = 0\<close> and \<^verbatim>\<open>nout = 0\<close> it would not.
\<close>

partial_function (option) serializer_loop :: "nat \<Rightarrow> serializer \<Rightarrow> serializer option" where
  "serializer_loop sizeof_Tout s =
     (if nin s \<le> readable (ser_in s) \<and> nout s \<le> writable (ser_out s)
      then serializer_loop sizeof_Tout
             (s\<lparr>ser_out := written
                    (elems sizeof_Tout (nout s)
                       (take (nout s * sizeof_Tout) (concat (rd (ser_in s)))))
                    (ser_out s),
                ser_in := read (nin s) (ser_in s)\<rparr>)
      else Some s)"

declare serializer_loop.simps [code]

definition serializer_run :: "nat \<Rightarrow> serializer \<Rightarrow> serializer outcome" where
  "serializer_run sizeof_Tout s =
     (case serializer_loop sizeof_Tout s of None \<Rightarrow> Hangs | Some s' \<Rightarrow> Done s')"

subsection \<open>rate estimator\<close>

text \<open>
  \<^verbatim>\<open>rate_estimator<T>\<close>: the two input streams carry \<^verbatim>\<open>int\<close>, the accumulators have
  the type \<^verbatim>\<open>T\<close>. \<^verbatim>\<open>acc_num += *pnum\<close> converts the element to \<^verbatim>\<open>T\<close> and adds;
  \<^verbatim>\<open>acc_den >= sample_size\<close> compares in \<^verbatim>\<open>T\<close>. The value written,
  \<^verbatim>\<open>(float)acc_num / acc_den\<close>, is a floating-point quotient; it is kept symbolic as
  \<open>FQuot acc_num acc_den\<close> (floating-point division is not modelled, and a zero
  denominator gives a NaN or an infinity there, not an error).

  \<^verbatim>\<open>min\<close> and \<^verbatim>\<open>max\<close> come from \<^verbatim>\<open>leansdr/math.h\<close> (not among the sources): the
  smaller and the larger of two values.
\<close>

datatype 'a fquot = FQuot 'a 'a

record 'a rate_estimator =
  sample_size :: int
  re_num :: "int pipereader"
  re_den :: "int pipereader"
  rate :: "'a fquot pipewriter"
  acc_num :: 'a
  acc_den :: 'a

definition rate_estimator_ctor ::
  "int pipereader \<Rightarrow> int pipereader \<Rightarrow> 'a fquot pipewriter \<Rightarrow> ('a::ring_1) rate_estimator" where
  "rate_estimator_ctor num den rt =
     \<lparr>sample_size = 10000, re_num = num, re_den = den, rate = rt, acc_num = 0, acc_den = 0\<rparr>"

text \<open>
  The loop \<^verbatim>\<open>for (int n=count; n--; ++pnum,++pden)\<close>: \<open>n\<close> counts down, the two
  pointers walk the readable regions.
\<close>

fun accumulate :: "nat \<Rightarrow> int list \<Rightarrow> int list \<Rightarrow> ('a::ring_1) \<times> 'a \<Rightarrow> 'a \<times> 'a" where
  "accumulate 0 pnum pden acc = acc"
| "accumulate (Suc n) pnum pden (an, ad) =
     accumulate n (tl pnum) (tl pden) (an + of_int (hd pnum), ad + of_int (hd pden))"

definition rate_estimator_run ::
  "('a::{ring_1,ord}) rate_estimator \<Rightarrow> 'a rate_estimator outcome" where
  "rate_estimator_run r =
     (if writable (rate r) < 1 then Done r
      else
        let count = min (readable (re_num r)) (readable (re_den r));
            (an, ad) = accumulate count (rd (re_num r)) (rd (re_den r)) (acc_num r, acc_den r);
            r1 = r\<lparr>acc_num := an, acc_den := ad,
                   re_num := read count (re_num r), re_den := read count (re_den r)\<rparr>
        in if of_int (sample_size r1) \<le> acc_den r1
           then Done (r1\<lparr>rate := write_elem (FQuot (acc_num r1) (acc_den r1)) (rate r1),
                          acc_num := 0, acc_den := 0\<rparr>)
           else Done r1)"

subsection \<open>decimator\<close>

text \<open>
  \<^verbatim>\<open>decimator<T>\<close>. The constructor stores its \<^verbatim>\<open>int\<close> argument in the
  \<^verbatim>\<open>unsigned int\<close> field \<^verbatim>\<open>d\<close> (a conversion modulo \<open>2^32\<close>) and checks nothing.
\<close>

record 'a decimator =
  d :: nat
  dec_in :: "'a pipereader"
  dec_out :: "'a pipewriter"

definition decimator_ctor :: "int \<Rightarrow> 'a pipereader \<Rightarrow> 'a pipewriter \<Rightarrow> 'a decimator" where
  "decimator_ctor d' inp outp = \<lparr>d = nat (d' mod 2 ^ 32), dec_in = inp, dec_out = outp\<rparr>"

text \<open>
  The loop \<^verbatim>\<open>for ( ; pin<pend; pin+=d, ++pout ) *pout = *pin\<close>, with the pointers as
  indices into the readable region \<open>xs\<close> and \<open>out\<close> the elements stored so far at
  \<^verbatim>\<open>wr()\<close>. With \<open>d = 0\<close> and \<open>pin < pend\<close> it would never end.
\<close>

partial_function (option) decimator_loop ::
  "nat \<Rightarrow> 'a list \<Rightarrow> nat \<Rightarrow> nat \<Rightarrow> 'a list \<Rightarrow> 'a list option" where
  "decimator_loop dd xs pin pend out =
     (if pin < pend then decimator_loop dd xs (pin + dd) pend (out @ [xs ! pin])
      else Some out)"

declare decimator_loop.simps [code]

text \<open>
  \<^verbatim>\<open>run()\<close>. \<^verbatim>\<open>in.readable()/d\<close> is an integer division, undefined in C++ for
  \<open>d = 0\<close>.
\<close>

definition decimator_run :: "'a decimator \<Rightarrow> 'a decimator outcome" where
  "decimator_run dc =
     (if d dc = 0 then UB ''division by zero''
      else
        let count = min (readable (dec_in dc) div d dc) (writable (dec_out dc))
        in case decimator_loop (d dc) (rd (dec_in dc)) 0 (count * d dc) [] of
             None \<Rightarrow> Hangs
           | Some out \<Rightarrow>
               Done (dc\<lparr>dec_in := read (count * d dc) (dec_in dc),
                        dec_out := written (take count out) (dec_out dc)\<rparr>))"

subsection \<open>itemcounter\<close>

text \<open>
  \<^verbatim>\<open>itemcounter<Tin,Tout>\<close>: \<^verbatim>\<open>out.write(count)\<close> converts the count to the numeric
  type \<^verbatim>\<open>Tout\<close>.
\<close>

record ('a, 'b) itemcounter =
  ic_in :: "'a pipereader"
  ic_out :: "'b pipewriter"

definition itemcounter_run ::
  "('a, 'b::semiring_1) itemcounter \<Rightarrow> ('a, 'b) itemcounter outcome" where
  "itemcounter_run ic =
     (if writable (ic_out ic) < 1 then Done ic
      else
        let count = readable (ic_in ic)
        in if count = 0 then Done ic
           else Done (ic\<lparr>ic_out := write_elem (of_nat count) (ic_out ic),
                         ic_in := read count (ic_in ic)\<rparr>))"

subsection \<open>Descriptors\<close>

text \<open>
  Modelled from the spec: the descriptor contract of section 6 (POSIX \<^verbatim>\<open>read\<close>,
  \<^verbatim>\<open>write\<close> and \<^verbatim>\<open>lseek\<close>; the operating system is not part of the sources).
  A descriptor open for reading is the list of what its next \<^verbatim>\<open>read\<close> calls find:
  an error, or a chunk of bytes that is ready (the empty chunk is the end of the data).
  \<^verbatim>\<open>read(fd, p, size)\<close> returns -1 on an error, and otherwise takes at most \<open>size\<close>
  bytes of the chunk and returns their number; bytes not taken stay for the next call.
  With no entry left the call blocks for ever. \<^verbatim>\<open>lseek(fd, 0, SEEK_SET)\<close> returns 0
  on a seekable descriptor and -1 on any other.
\<close>

datatype rd_event = RErr | RData "byte list"

record rfd =
  reads :: "rd_event list"
  seekable :: bool

definition posix_read :: "rfd \<Rightarrow> nat \<Rightarrow> (int \<times> byte list \<times> rfd) option" where
  "posix_read fd sz =
     (case reads fd of
        [] \<Rightarrow> None
      | RErr # evs \<Rightarrow> Some (- 1, [], fd\<lparr>reads := evs\<rparr>)
      | RData bs # evs \<Rightarrow>
          Some (int (min (length bs) sz), take sz bs,
                fd\<lparr>reads := (if sz < length bs then RData (drop sz bs) # evs else evs)\<rparr>))"

definition lseek :: "rfd \<Rightarrow> int" where
  "lseek fd = (if seekable fd then 0 else - 1)"

text \<open>
  Modelled from the spec: a descriptor open for writing is the text it has taken so far
  and the list of what its next \<^verbatim>\<open>write\<close> calls do: fail, or take up to a number of
  bytes. \<^verbatim>\<open>write(fd, p, size)\<close>, given the \<open>size\<close> bytes at \<open>p\<close>, returns -1 or the
  number of bytes taken; with no entry left the call blocks for ever.
\<close>

datatype wr_event = WErr | WAccept nat

record 'b wfd =
  sink :: "'b list"
  writes :: "wr_event list"

definition posix_write :: "'b wfd \<Rightarrow> 'b list \<Rightarrow> (int \<times> 'b wfd) option" where
  "posix_write fd bs =
     (case writes fd of
        [] \<Rightarrow> None
      | WErr # evs \<Rightarrow> Some (- 1, fd\<lparr>writes := evs\<rparr>)
      | WAccept k # evs \<Rightarrow>
          Some (int (min k (length bs)), fd\<lparr>sink := sink fd @ take k bs, writes := evs\<rparr>))"

subsection \<open>file reader\<close>

text \<open>
  \<^verbatim>\<open>file_reader<T>\<close>, with \<^verbatim>\<open>sizeof(T)\<close> as a parameter of \<^verbatim>\<open>run()\<close>. The debug
  messages to \<^verbatim>\<open>stderr\<close> are left out. Byte and element counts are far below
  \<open>2^31\<close> (a stream buffer lies in memory), so the conversions between \<^verbatim>\<open>size_t\<close>,
  \<^verbatim>\<open>ssize_t\<close>, \<^verbatim>\<open>unsigned long\<close> and \<^verbatim>\<open>int\<close> change no value here and in the
  blocks below.
\<close>

record file_reader =
  fr_loop :: bool
  fdin :: rfd
  fr_out :: "elem pipewriter"

text \<open>
  From the label \<^verbatim>\<open>again\<close> to the end of the \<^verbatim>\<open>if ( ! nr )\<close> block. The result
  \<open>Done (0, _, _)\<close> is the \<^verbatim>\<open>return\<close> at the end of the data. A \<^verbatim>\<open>goto again\<close>
  with the descriptor as it was before the \<^verbatim>\<open>read\<close> repeats for ever.
\<close>

function read_again :: "bool \<Rightarrow> rfd \<Rightarrow> nat \<Rightarrow> (int \<times> byte list \<times> rfd) outcome" where
  "read_again lp fd sz =
     (case posix_read fd sz of
        None \<Rightarrow> Hangs
      | Some (nr, bs, fd') \<Rightarrow>
          if nr < 0 then Fatal ''read''
          else if nr = 0 then
            (if \<not> lp then Done (nr, bs, fd')
             else if lseek fd' = - 1 then Fatal ''lseek''
             else if fd' = fd then Hangs
             else read_again lp fd' sz)
          else Done (nr, bs, fd'))"
  by pat_completeness auto
termination
proof (relation "measure (\<lambda>(lp, fd, sz). length (reads fd))")
  show "wf (measure (\<lambda>(lp, fd, sz). length (reads fd)))" by simp
qed (auto simp: posix_read_def split: list.splits rd_event.splits if_splits)

text \<open>
  The loop \<^verbatim>\<open>while ( remain )\<close>: \<open>region\<close> holds the \<open>nr\<close> bytes stored at
  \<^verbatim>\<open>out.wr()\<close> so far.
\<close>

function complete_element ::
  "rfd \<Rightarrow> byte list \<Rightarrow> int \<Rightarrow> nat \<Rightarrow> (int \<times> byte list \<times> rfd) outcome" where
  "complete_element fd region nr remain =
     (if remain = 0 then Done (nr, region, fd)
      else case posix_read fd remain of
             None \<Rightarrow> Hangs
           | Some (nr2, bs, fd') \<Rightarrow>
               if nr2 \<le> 0 then Fatal ''partial read''
               else complete_element fd' (region @ bs) (nr + nr2) (remain - nat nr2))"
  by pat_completeness auto
termination
  by (relation "measure (\<lambda>(fd, region, nr, remain). remain)") auto

declare read_again.simps [simp del] complete_element.simps [simp del]

definition file_reader_run :: "nat \<Rightarrow> file_reader \<Rightarrow> file_reader outcome" where
  "file_reader_run sizeof_T fr =
     (let sz = writable (fr_out fr) * sizeof_T
      in if sz = 0 then Done fr
         else
           (case read_again (fr_loop fr) (fdin fr) sz of
              Fatal m \<Rightarrow> Fatal m
            | UB m \<Rightarrow> UB m
            | Hangs \<Rightarrow> Hangs
            | Done (nr, bs, fd') \<Rightarrow>
                if nr = 0 then Done (fr\<lparr>fdin := fd'\<rparr>)
                else
                  (let partial = nat nr mod sizeof_T;
                       remain = (if partial \<noteq> 0 then sizeof_T - partial else 0)
                   in (case complete_element fd' bs nr remain of
                         Fatal m \<Rightarrow> Fatal m
                       | UB m \<Rightarrow> UB m
                       | Hangs \<Rightarrow> Hangs
                       | Done (nr', region, fd'') \<Rightarrow>
                           Done (fr\<lparr>fdin := fd'',
                                    fr_out := written
                                      (elems sizeof_T (nat nr' div sizeof_T) region)
                                      (fr_out fr)\<rparr>)))))"

subsection \<open>file writer\<close>

record file_writer =
  fw_in :: "elem pipereader"
  fw_fdout :: "byte wfd"

definition file_writer_run :: "nat \<Rightarrow> file_writer \<Rightarrow> file_writer outcome" where
  "file_writer_run sizeof_T fw =
     (let sz = readable (fw_in fw) * sizeof_T
      in if sz = 0 then Done fw
         else case posix_write (fw_fdout fw) (take sz (concat (rd (fw_in fw)))) of
                None \<Rightarrow> Hangs
              | Some (nw, fd') \<Rightarrow>
                  if nw = 0 then Fatal ''pipe''
                  else if nw < 0 then Fatal ''write''
                  else if nat nw mod sizeof_T \<noteq> 0 then Fatal ''partial write''
                  else Done (fw\<lparr>fw_in := read (nat nw div sizeof_T) (fw_in fw),
                                fw_fdout := fd'\<rparr>))"

subsection \<open>file printer\<close>

text \<open>
  Modelled from the spec: the formatting contract of section 6 (the C library's
  \<^verbatim>\<open>snprintf\<close>; the library is not part of the sources). The parameter \<open>sprintf\<close>
  gives the complete text of a value under a format, or \<open>None\<close> when formatting fails.
  \<^verbatim>\<open>snprintf(buf, size, format, v)\<close> stores at most \<open>size - 1\<close> characters of the
  text and a terminating zero in \<open>buf\<close>, and returns the length of the complete text
  (also when it did not fit), or a negative number when formatting fails. The result
  here is the number returned and the bytes of \<open>buf\<close> that were stored.
\<close>

definition snprintf ::
  "nat \<Rightarrow> (string \<Rightarrow> 'a \<Rightarrow> string option) \<Rightarrow> string \<Rightarrow> 'a \<Rightarrow> int \<times> string" where
  "snprintf sz sprintf fmt v =
     (case sprintf fmt v of
        None \<Rightarrow> (- 1, [])
      | Some s \<Rightarrow> (int (length s), take (sz - 1) s @ [CHR 0x00]))"

text \<open>
  \<^verbatim>\<open>file_printer<T>\<close>. \<^verbatim>\<open>phase\<close> and \<^verbatim>\<open>decimation\<close> are \<^verbatim>\<open>int\<close>; they stay
  far from the ends of its range (from a phase in \<open>0 \<dots> decimation - 1\<close> the phase never
  leaves this range).
\<close>

record 'a file_printer =
  scale :: 'a
  decimation :: int
  fp_in :: "'a pipereader"
  format :: string
  fp_fdout :: "char wfd"
  phase :: int

definition file_printer_ctor ::
  "string \<Rightarrow> 'a pipereader \<Rightarrow> char wfd \<Rightarrow> int \<Rightarrow> ('a::one) file_printer" where
  "file_printer_ctor format' inp fdout' decimation' =
     \<lparr>scale = 1, decimation = decimation', fp_in = inp, format = format',
      fp_fdout = fdout', phase = 0\<rparr>"

text \<open>
  The loop \<^verbatim>\<open>for ( ; pin<pend; ++pin )\<close> over the readable elements. \<^verbatim>\<open>buf\<close> has
  256 bytes, of which \<^verbatim>\<open>snprintf\<close> has stored at most 256; \<^verbatim>\<open>write(fdout, buf, len)\<close>
  with a larger \<^verbatim>\<open>len\<close> reads beyond the array.
\<close>

fun file_printer_loop ::
  "(string \<Rightarrow> 'a \<Rightarrow> string option) \<Rightarrow> 'a list \<Rightarrow> ('a::times) file_printer
     \<Rightarrow> 'a file_printer outcome" where
  "file_printer_loop sprintf [] fp = Done fp"
| "file_printer_loop sprintf (x # pin) fp =
     (let fp1 = fp\<lparr>phase := phase fp + 1\<rparr>
      in if decimation fp1 \<le> phase fp1
         then
           (let fp2 = fp1\<lparr>phase := phase fp1 - decimation fp1\<rparr>;
                (len, buf) = snprintf 256 sprintf (format fp2) (x * scale fp2)
            in if len < 0 then Fatal ''obsolete glibc''
               else if 256 < len then UB ''write reads beyond buf''
               else
                 (case posix_write (fp_fdout fp2) (take (nat len) buf) of
                    None \<Rightarrow> Hangs
                  | Some (nw, fd') \<Rightarrow>
                      if nw \<noteq> len then Fatal ''partial write''
                      else file_printer_loop sprintf pin (fp2\<lparr>fp_fdout := fd'\<rparr>)))
         else file_printer_loop sprintf pin fp1)"

definition file_printer_run ::
  "(string \<Rightarrow> 'a \<Rightarrow> string option) \<Rightarrow> ('a::times) file_printer \<Rightarrow> 'a file_printer outcome" where
  "file_printer_run sprintf fp =
     (let n = readable (fp_in fp)
      in (case file_printer_loop sprintf (take n (rd (fp_in fp))) fp of
            Done fp' \<Rightarrow> Done (fp'\<lparr>fp_in := read n (fp_in fp')\<rparr>)
          | Fatal m \<Rightarrow> Fatal m
          | UB m \<Rightarrow> UB m
          | Hangs \<Rightarrow> Hangs))"

text \<open>
  A formatting function to run the printer on integers: the complete text of an
  integer under a format made of plain characters and one \<^verbatim>\<open>%d\<close>, as the C library
  prints it. It never fails.
\<close>

fun digits :: "nat \<Rightarrow> string" where
  "digits n =
     (if n < 10 then [''0123456789'' ! n]
      else digits (n div 10) @ [''0123456789'' ! (n mod 10)])"

definition show_int :: "int \<Rightarrow> string" where
  "show_int v = (if v < 0 then CHR ''-'' # digits (nat (- v)) else digits (nat v))"

fun sprintf_d :: "string \<Rightarrow> int \<Rightarrow> string" where
  "sprintf_d [] v = []"
| "sprintf_d (c # cs) v =
     (if c = CHR ''%'' \<and> cs \<noteq> [] \<and> hd cs = CHR ''d'' then show_int v @ tl cs
      else c # sprintf_d cs v)"

subsection \<open>file carrayprinter\<close>

text \<open>
  \<^verbatim>\<open>file_carrayprinter<T>\<close>. An element \<^verbatim>\<open>complex<T>\<close> is the pair of its fields
  \<^verbatim>\<open>re\<close> and \<^verbatim>\<open>im\<close>. \<^verbatim>\<open>fout\<close> is the result of \<^verbatim>\<open>fdopen\<close>: \<open>None\<close> for a null
  pointer, and otherwise the text handed to the stream so far. The two parameters
  give the text \<^verbatim>\<open>fprintf\<close> makes of the element count under the head format and of
  two scaled components under the element format; the results of \<^verbatim>\<open>fprintf\<close> and
  \<^verbatim>\<open>fflush\<close> are not looked at by the code.
\<close>

record 'a file_carrayprinter =
  cp_scale :: 'a
  cp_in :: "('a \<times> 'a) pipereader"
  head :: string
  cp_format :: string
  tail :: string
  fout :: "string option"

definition file_carrayprinter_run ::
  "(string \<Rightarrow> nat \<Rightarrow> string) \<Rightarrow> (string \<Rightarrow> 'a \<Rightarrow> 'a \<Rightarrow> string) \<Rightarrow>
     ('a::times) file_carrayprinter \<Rightarrow> 'a file_carrayprinter outcome" where
  "file_carrayprinter_run fprintf_n fprintf_c cp =
     (let n = readable (cp_in cp);
          cp1 = (case fout cp of
                   None \<Rightarrow> cp
                 | Some text \<Rightarrow>
                     if n = 0 then cp
                     else cp\<lparr>fout := Some (text @ fprintf_n (head cp) n @
                            concat (map (\<lambda>(re, im). fprintf_c (cp_format cp)
                                           (re * cp_scale cp) (im * cp_scale cp))
                                      (take n (rd (cp_in cp)))) @
                            tail cp)\<rparr>)
      in Done (cp1\<lparr>cp_in := read n (cp_in cp1)\<rparr>))"

subsection \<open>buffer reader and buffer writer\<close>

text \<open>
  \<^verbatim>\<open>(unsigned long)(count-pos)\<close>: the conversion of an \<^verbatim>\<open>int\<close> to a 64-bit unsigned
  integer.
\<close>

definition to_ulong :: "int \<Rightarrow> nat" where
  "to_ulong i = nat (i mod 2 ^ 64)"

text \<open>
  \<^verbatim>\<open>buffer_reader<T>\<close>: \<open>br_data\<close> is the array the pointer \<^verbatim>\<open>data\<close> points to.
  \<^verbatim>\<open>memcpy\<close> reads the \<open>n\<close> elements from \<^verbatim>\<open>data[pos]\<close> on; outside the array
  that is undefined.
\<close>

record 'a buffer_reader =
  br_data :: "'a list"
  br_count :: int
  br_out :: "'a pipewriter"
  br_pos :: int

definition buffer_reader_run :: "'a buffer_reader \<Rightarrow> 'a buffer_reader outcome" where
  "buffer_reader_run br =
     (let n = min (writable (br_out br)) (to_ulong (br_count br - br_pos br))
      in if n \<noteq> 0 \<and> (br_pos br < 0 \<or> length (br_data br) < nat (br_pos br) + n)
         then UB ''memcpy reads outside data''
         else Done (br\<lparr>br_pos := br_pos br + int n,
                       br_out := written (take n (drop (nat (br_pos br)) (br_data br)))
                                   (br_out br)\<rparr>))"

text \<open>
  \<^verbatim>\<open>buffer_writer<T>\<close>: \<^verbatim>\<open>memcpy\<close> overwrites the \<open>n\<close> elements from
  \<^verbatim>\<open>data[pos]\<close> on.
\<close>

record 'a buffer_writer =
  bw_in :: "'a pipereader"
  bw_data :: "'a list"
  bw_count :: int
  bw_pos :: int

definition buffer_writer_run :: "'a buffer_writer \<Rightarrow> 'a buffer_writer outcome" where
  "buffer_writer_run bw =
     (let n = min (readable (bw_in bw)) (to_ulong (bw_count bw - bw_pos bw))
      in if n \<noteq> 0 \<and> (bw_pos bw < 0 \<or> length (bw_data bw) < nat (bw_pos bw) + n)
         then UB ''memcpy writes outside data''
         else Done (bw\<lparr>bw_data := take (nat (bw_pos bw)) (bw_data bw) @
                                   take n (rd (bw_in bw)) @
                                   drop (nat (bw_pos bw) + n) (bw_data bw),
                       bw_in := read n (bw_in bw),
                       bw_pos := bw_pos bw + int n\<rparr>))"

subsection \<open>Notions used in the statements\<close>

text \<open>
  The rule of section 4.5 of the spec, in its words, as functions of the phase, the
  decimation factor and the readable elements: for each element the counter is
  incremented; when it has reached the decimation factor, the factor is subtracted and
  the element is emitted. \<open>spec_emitted\<close> is the list of the elements emitted,
  \<open>spec_phase\<close> the counter after the last element. \<open>line_of\<close> is the text of one
  element: its value times the scale, under the printer's format.
\<close>

fun spec_emitted :: "int \<Rightarrow> int \<Rightarrow> 'a list \<Rightarrow> 'a list" where
  "spec_emitted p dcm [] = []"
| "spec_emitted p dcm (x # xs) =
     (if dcm \<le> p + 1 then x # spec_emitted (p + 1 - dcm) dcm xs
      else spec_emitted (p + 1) dcm xs)"

fun spec_phase :: "int \<Rightarrow> int \<Rightarrow> 'a list \<Rightarrow> int" where
  "spec_phase p dcm [] = p"
| "spec_phase p dcm (x # xs) =
     (if dcm \<le> p + 1 then spec_phase (p + 1 - dcm) dcm xs
      else spec_phase (p + 1) dcm xs)"

definition line_of ::
  "(string \<Rightarrow> 'a \<Rightarrow> string option) \<Rightarrow> ('a::times) file_printer \<Rightarrow> 'a \<Rightarrow> string" where
  "line_of sprintf fp x = the (sprintf (format fp) (x * scale fp))"

text \<open>
  The bytes a read descriptor still holds: the chunks of its entries, in their order.
\<close>

definition payload :: "rd_event list \<Rightarrow> byte list" where
  "payload evs = concat (map (\<lambda>e. case e of RErr \<Rightarrow> [] | RData bs \<Rightarrow> bs) evs)"

section \<open>Properties\<close>

subsection \<open>serializer: construction\<close>

lemma serializer_ctor_Done_equal_sizes:
  assumes "0 < a" "0 < b" "serializer_ctor a b inp outp = Done s"
  shows "a = b \<and> nin s = 1 \<and> nout s = 1"
proof -
  have eq: "max 1 (a div b) * a = max 1 (b div a) * b"
    and s: "s = \<lparr>nin = max 1 (a div b), nout = max 1 (b div a), ser_in = inp, ser_out = outp\<rparr>"
    using assms(3) by (auto simp: serializer_ctor_def Let_def split: if_splits)
  have "a = b"
  proof (rule ccontr)
    assume "a \<noteq> b"
    then consider "a < b" | "b < a" by linarith
    then show False
    proof cases
      case 1
      then have "a div b = 0" by simp
      moreover have "1 \<le> b div a" using 1 assms(1) by (simp add: Suc_leI div_greater_zero_iff)
      ultimately have "a = (b div a) * b" using eq by (simp add: max_def)
      moreover have "b \<le> (b div a) * b" using \<open>1 \<le> b div a\<close> by simp
      ultimately show False using 1 by linarith
    next
      case 2
      then have "b div a = 0" by simp
      moreover have "1 \<le> a div b" using 2 assms(2) by (simp add: Suc_leI div_greater_zero_iff)
      ultimately have "(a div b) * a = b" using eq by (simp add: max_def)
      moreover have "a \<le> (a div b) * a" using \<open>1 \<le> a div b\<close> by simp
      ultimately show False using 2 by linarith
    qed
  qed
  then show ?thesis using s assms(1) by simp
qed

lemma serializer_ctor_not_multiple:
  assumes "\<not> a dvd b" "\<not> b dvd a"
  shows "serializer_ctor a b inp outp = Fatal ''serializer: incompatible sizes''"
proof -
  have "max 1 (a div b) * a \<noteq> max 1 (b div a) * b"
  proof
    assume eq: "max 1 (a div b) * a = max 1 (b div a) * b"
    show False
    proof (cases "a \<le> b")
      case True
      then have "a < b" using assms(1) by (cases "a = b") auto
      then have "a = max 1 (b div a) * b" using eq by simp
      then have "b dvd a" by (metis dvd_triv_right)
      then show False using assms(2) by simp
    next
      case False
      then have "max 1 (a div b) * a = b" using eq by simp
      then have "a dvd b" by (metis dvd_triv_right)
      then show False using assms(1) by simp
    qed
  qed
  then show ?thesis by (simp add: serializer_ctor_def Let_def)
qed

text \<open>
  C1, as amended. For element sizes of at least one byte: when construction succeeds,
  \<open>(nin, nout)\<close> is the smallest pair of positive integers with
  \<open>nin * sizeof(Tin) = nout * sizeof(Tout)\<close>; when neither size is a multiple of the
  other, construction fails fatally (although a pair of integers with equal byte totals
  exists for any two sizes); when the sizes are equal, construction succeeds with
  \<open>nin = nout = 1\<close>; and construction either succeeds or fails with the message
  \<^verbatim>\<open>serializer: incompatible sizes\<close>.
\<close>

theorem serializer_ctor_pair:
  assumes "0 < sizeof_Tin" and "0 < sizeof_Tout"
  shows "(\<forall>s. serializer_ctor sizeof_Tin sizeof_Tout inp outp = Done s \<longrightarrow>
            0 < nin s \<and> 0 < nout s \<and> nin s * sizeof_Tin = nout s * sizeof_Tout \<and>
            (\<forall>a b. 0 < a \<and> 0 < b \<and> a * sizeof_Tin = b * sizeof_Tout \<longrightarrow>
                   nin s \<le> a \<and> nout s \<le> b))
       \<and> (\<not> sizeof_Tin dvd sizeof_Tout \<and> \<not> sizeof_Tout dvd sizeof_Tin \<longrightarrow>
            serializer_ctor sizeof_Tin sizeof_Tout inp outp =
              Fatal ''serializer: incompatible sizes'')
       \<and> (sizeof_Tin = sizeof_Tout \<longrightarrow>
            serializer_ctor sizeof_Tin sizeof_Tout inp outp =
              Done \<lparr>nin = 1, nout = 1, ser_in = inp, ser_out = outp\<rparr>)
       \<and> ((\<exists>s. serializer_ctor sizeof_Tin sizeof_Tout inp outp = Done s) \<or>
            serializer_ctor sizeof_Tin sizeof_Tout inp outp =
              Fatal ''serializer: incompatible sizes'')"
proof (intro conjI allI impI)
  fix s
  assume d: "serializer_ctor sizeof_Tin sizeof_Tout inp outp = Done s"
  note e = serializer_ctor_Done_equal_sizes [OF assms d]
  show "0 < nin s" "0 < nout s" "nin s * sizeof_Tin = nout s * sizeof_Tout"
    using e by simp_all
  fix a b :: nat
  assume "0 < a \<and> 0 < b \<and> a * sizeof_Tin = b * sizeof_Tout"
  then show "nin s \<le> a" "nout s \<le> b" using e by simp_all
next
  assume "\<not> sizeof_Tin dvd sizeof_Tout \<and> \<not> sizeof_Tout dvd sizeof_Tin"
  then show "serializer_ctor sizeof_Tin sizeof_Tout inp outp =
      Fatal ''serializer: incompatible sizes''"
    by (simp add: serializer_ctor_not_multiple)
next
  assume "sizeof_Tin = sizeof_Tout"
  then show "serializer_ctor sizeof_Tin sizeof_Tout inp outp =
      Done \<lparr>nin = 1, nout = 1, ser_in = inp, ser_out = outp\<rparr>"
    using assms by (simp add: serializer_ctor_def)
next
  show "(\<exists>s. serializer_ctor sizeof_Tin sizeof_Tout inp outp = Done s) \<or>
      serializer_ctor sizeof_Tin sizeof_Tout inp outp = Fatal ''serializer: incompatible sizes''"
    by (simp add: serializer_ctor_def Let_def)
qed

text \<open>
  The theorem at two 4-byte types (construction succeeds with the pair (1, 1)) and at a
  4-byte and a 6-byte type (construction fails).
\<close>

theorem serializer_ctor_pair_witness:
  "serializer_ctor 4 4 \<lparr>rd = []\<rparr> \<lparr>buf = [], room = 8\<rparr> =
     Done \<lparr>nin = 1, nout = 1, ser_in = \<lparr>rd = []\<rparr>, ser_out = \<lparr>buf = [], room = 8\<rparr>\<rparr>
   \<and> serializer_ctor 4 6 \<lparr>rd = []\<rparr> \<lparr>buf = [], room = 8\<rparr> =
     Fatal ''serializer: incompatible sizes''"
  using serializer_ctor_pair [of 4 4 "\<lparr>rd = []\<rparr>" "\<lparr>buf = [], room = 8\<rparr>"]
    serializer_ctor_pair [of 4 6 "\<lparr>rd = []\<rparr>" "\<lparr>buf = [], room = 8\<rparr>"]
  by simp

text \<open>
  C1 as stated fails: three 4-byte elements and two 6-byte elements both take 12 bytes,
  so an integer pair exists, and yet construction fails.
\<close>

theorem serializer_ctor_pair_counterexample:
  "serializer_ctor 4 6 \<lparr>rd = []\<rparr> \<lparr>buf = [], room = 8\<rparr> =
     Fatal ''serializer: incompatible sizes''
   \<and> (3::nat) * 4 = 2 * 6 \<and> (0::nat) < 3 \<and> (0::nat) < 2"
  by (simp add: serializer_ctor_def)

text \<open>
  C2. With a 2-byte input type and an 8-byte output type the initialisers compute
  \<open>nin = max 1 (2 div 8) = 1\<close> and \<open>nout = max 1 (8 div 2) = 4\<close>, the check compares
  \<open>1 * 2\<close> with \<open>4 * 8\<close>, and construction fails: no serializer with \<open>nin = 4\<close> and
  \<open>nout = 1\<close> is built.
\<close>

theorem serializer_ctor_2_8_fails:
  "serializer_ctor 2 8 inp outp = Fatal ''serializer: incompatible sizes''"
  by (simp add: serializer_ctor_def)

subsection \<open>rate estimator\<close>

lemma accumulate_sum:
  "n \<le> length pnum \<Longrightarrow> n \<le> length pden \<Longrightarrow>
   accumulate n pnum pden (an, ad) =
     (an + of_int (sum_list (take n pnum)), ad + of_int (sum_list (take n pden)))"
proof (induction n arbitrary: pnum pden an ad)
  case 0
  then show ?case by simp
next
  case (Suc n)
  then obtain x xs y ys where p: "pnum = x # xs" "pden = y # ys"
    by (cases pnum; cases pden) auto
  with Suc show ?case by (simp add: add.assoc)
qed

text \<open>
  C4. An invocation with room for at least one output value consumes
  \<open>count = min\<close> (readable numerators) (readable denominators) elements from both
  inputs and adds them to the two sums. If the denominator sum has then reached
  \<^verbatim>\<open>sample_size\<close>, exactly one value, the quotient of the numerator sum by the
  denominator sum, is written and both sums become zero; otherwise nothing is written
  and the sums stay as accumulated. In particular, with \<^verbatim>\<open>sample_size\<close> 100 and a
  denominator sum of exactly 100 the value written is (numerator sum)/100 and both
  accumulators are 0 afterwards.
\<close>

theorem rate_estimator_step:
  fixes r :: "('a::{ring_1,order}) rate_estimator"
  assumes w: "1 \<le> writable (rate r)"
  defines "count \<equiv> min (readable (re_num r)) (readable (re_den r))"
  defines "sum_num \<equiv> acc_num r + of_int (sum_list (take count (rd (re_num r))))"
  defines "sum_den \<equiv> acc_den r + of_int (sum_list (take count (rd (re_den r))))"
  shows "rate_estimator_run r =
           Done (if of_int (sample_size r) \<le> sum_den
                 then r\<lparr>re_num := \<lparr>rd = drop count (rd (re_num r))\<rparr>,
                        re_den := \<lparr>rd = drop count (rd (re_den r))\<rparr>,
                        rate := \<lparr>buf = buf (rate r) @ [FQuot sum_num sum_den],
                                 room = room (rate r) - 1\<rparr>,
                        acc_num := 0, acc_den := 0\<rparr>
                 else r\<lparr>re_num := \<lparr>rd = drop count (rd (re_num r))\<rparr>,
                        re_den := \<lparr>rd = drop count (rd (re_den r))\<rparr>,
                        acc_num := sum_num, acc_den := sum_den\<rparr>)
       \<and> (sample_size r = 100 \<and> sum_den = 100 \<longrightarrow>
            rate_estimator_run r =
              Done (r\<lparr>re_num := \<lparr>rd = drop count (rd (re_num r))\<rparr>,
                       re_den := \<lparr>rd = drop count (rd (re_den r))\<rparr>,
                       rate := \<lparr>buf = buf (rate r) @ [FQuot sum_num 100],
                                room = room (rate r) - 1\<rparr>,
                       acc_num := 0, acc_den := 0\<rparr>))"
proof -
  have acc: "accumulate count (rd (re_num r)) (rd (re_den r)) (acc_num r, acc_den r)
      = (sum_num, sum_den)"
    unfolding sum_num_def sum_den_def
    by (rule accumulate_sum) (simp_all add: count_def readable_def)
  have nw: "\<not> writable (rate r) < 1" using w by simp
  have run: "rate_estimator_run r =
           Done (if of_int (sample_size r) \<le> sum_den
                 then r\<lparr>re_num := \<lparr>rd = drop count (rd (re_num r))\<rparr>,
                        re_den := \<lparr>rd = drop count (rd (re_den r))\<rparr>,
                        rate := \<lparr>buf = buf (rate r) @ [FQuot sum_num sum_den],
                                 room = room (rate r) - 1\<rparr>,
                        acc_num := 0, acc_den := 0\<rparr>
                 else r\<lparr>re_num := \<lparr>rd = drop count (rd (re_num r))\<rparr>,
                        re_den := \<lparr>rd = drop count (rd (re_den r))\<rparr>,
                        acc_num := sum_num, acc_den := sum_den\<rparr>)"
    unfolding rate_estimator_run_def using w
    by (simp add: nw acc count_def [symmetric] Let_def read_def write_elem_def written_def)
  show ?thesis
  proof (intro conjI impI)
    show "rate_estimator_run r =
           Done (if of_int (sample_size r) \<le> sum_den
                 then r\<lparr>re_num := \<lparr>rd = drop count (rd (re_num r))\<rparr>,
                        re_den := \<lparr>rd = drop count (rd (re_den r))\<rparr>,
                        rate := \<lparr>buf = buf (rate r) @ [FQuot sum_num sum_den],
                                 room = room (rate r) - 1\<rparr>,
                        acc_num := 0, acc_den := 0\<rparr>
                 else r\<lparr>re_num := \<lparr>rd = drop count (rd (re_num r))\<rparr>,
                        re_den := \<lparr>rd = drop count (rd (re_den r))\<rparr>,
                        acc_num := sum_num, acc_den := sum_den\<rparr>)"
      by (rule run)
  next
    assume a: "sample_size r = 100 \<and> sum_den = 100"
    then have "of_int (sample_size r) \<le> sum_den" by simp
    then show "rate_estimator_run r =
              Done (r\<lparr>re_num := \<lparr>rd = drop count (rd (re_num r))\<rparr>,
                       re_den := \<lparr>rd = drop count (rd (re_den r))\<rparr>,
                       rate := \<lparr>buf = buf (rate r) @ [FQuot sum_num 100],
                                room = room (rate r) - 1\<rparr>,
                       acc_num := 0, acc_den := 0\<rparr>)"
      using run a by simp
  qed
qed

text \<open>
  The theorem on integer accumulators: \<^verbatim>\<open>sample_size\<close> is 100, three numerators and
  two denominators are readable, and the denominators 60 and 40 sum to exactly 100.
  Two pairs are consumed, the value 7/100 is written and both accumulators are 0.
\<close>

theorem rate_estimator_step_witness:
  "rate_estimator_run
     \<lparr>sample_size = 100, re_num = \<lparr>rd = [3, 4, 9]\<rparr>, re_den = \<lparr>rd = [60, 40]\<rparr>,
      rate = \<lparr>buf = [], room = 2\<rparr>, acc_num = 0::int, acc_den = 0\<rparr>
   = Done \<lparr>sample_size = 100, re_num = \<lparr>rd = [9]\<rparr>, re_den = \<lparr>rd = []\<rparr>,
      rate = \<lparr>buf = [FQuot 7 100], room = 1\<rparr>, acc_num = 0, acc_den = 0\<rparr>"
  using rate_estimator_step [of "\<lparr>sample_size = 100, re_num = \<lparr>rd = [3, 4, 9]\<rparr>,
      re_den = \<lparr>rd = [60, 40]\<rparr>, rate = \<lparr>buf = [], room = 2\<rparr>,
      acc_num = 0::int, acc_den = 0\<rparr>"]
  by (simp add: writable_def readable_def)

text \<open>
  C5. An invocation that finds no room in the output stream returns at once: both
  input streams, both sums and the output stream are as before.
\<close>

theorem rate_estimator_zero_writable:
  "writable (rate r) = 0 \<Longrightarrow> rate_estimator_run r = Done r"
  by (simp add: rate_estimator_run_def)

text \<open>
  The theorem with a full output stream, two readable pairs and sums that would pass
  the threshold: nothing changes.
\<close>

theorem rate_estimator_zero_writable_witness:
  "rate_estimator_run
     \<lparr>sample_size = 100, re_num = \<lparr>rd = [3, 4]\<rparr>, re_den = \<lparr>rd = [60, 40]\<rparr>,
      rate = \<lparr>buf = [FQuot 1 100], room = 0\<rparr>, acc_num = 5::int, acc_den = 99\<rparr>
   = Done \<lparr>sample_size = 100, re_num = \<lparr>rd = [3, 4]\<rparr>, re_den = \<lparr>rd = [60, 40]\<rparr>,
      rate = \<lparr>buf = [FQuot 1 100], room = 0\<rparr>, acc_num = 5, acc_den = 99\<rparr>"
  using rate_estimator_zero_writable [of "\<lparr>sample_size = 100, re_num = \<lparr>rd = [3, 4]\<rparr>,
      re_den = \<lparr>rd = [60, 40]\<rparr>, rate = \<lparr>buf = [FQuot 1 100], room = 0\<rparr>,
      acc_num = 5::int, acc_den = 99\<rparr>"]
  by (simp add: writable_def)

subsection \<open>decimator\<close>

text \<open>
  For a positive step the loop runs \<open>k\<close> times when \<open>pend\<close> is \<open>k\<close> steps away, and
  stores the elements at \<open>pin\<close>, \<open>pin + dd\<close>, \<open>pin + 2 * dd\<close>, ... in this order.
\<close>

lemma decimator_loop_steps:
  "0 < dd \<Longrightarrow>
   decimator_loop dd xs pin (pin + k * dd) out =
     Some (out @ map (\<lambda>j. xs ! (pin + j * dd)) [0..<k])"
proof (induction k arbitrary: pin out)
  case 0
  then show ?case by (simp add: decimator_loop.simps)
next
  case (Suc k)
  have lt: "pin < pin + Suc k * dd" using Suc.prems by auto
  have e: "pin + Suc k * dd = (pin + dd) + k * dd" by simp
  have m: "map (\<lambda>j. xs ! (pin + j * dd)) [0..<Suc k]
        = xs ! pin # map (\<lambda>j. xs ! (pin + dd + j * dd)) [0..<k]"
    by (simp add: upt_rec [of 0 "Suc k"] map_Suc_upt [symmetric] add.assoc del: upt_Suc)
  have "decimator_loop dd xs pin (pin + Suc k * dd) out
      = decimator_loop dd xs (pin + dd) (pin + Suc k * dd) (out @ [xs ! pin])"
    by (subst decimator_loop.simps) (simp only: lt if_True)
  also have "\<dots> = decimator_loop dd xs (pin + dd) ((pin + dd) + k * dd) (out @ [xs ! pin])"
    by (simp only: e)
  also have "\<dots> = Some ((out @ [xs ! pin]) @ map (\<lambda>j. xs ! (pin + dd + j * dd)) [0..<k])"
    by (rule Suc.IH [OF Suc.prems])
  also have "\<dots> = Some (out @ map (\<lambda>j. xs ! (pin + j * dd)) [0..<Suc k])"
    by (simp only: m append_Cons append_Nil append_assoc)
  finally show ?case .
qed

text \<open>
  C6. For a factor \<open>D\<close> of at least 1, \<open>N\<close> readable elements and room for at least
  \<open>N div D\<close> elements, an invocation returns, commits exactly \<open>N div D\<close> elements, the
  input elements at the positions 0, \<open>D\<close>, \<open>2 * D\<close>, ... in their order, consumes
  \<open>(N div D) * D\<close> input elements and leaves the last \<open>N mod D\<close> readable.
\<close>

theorem decimator_forwards:
  assumes dpos: "1 \<le> d dc"
    and cap: "readable (dec_in dc) div d dc \<le> writable (dec_out dc)"
  shows "decimator_run dc =
           Done (dc\<lparr>dec_in := \<lparr>rd = drop (readable (dec_in dc) div d dc * d dc) (rd (dec_in dc))\<rparr>,
                    dec_out := \<lparr>buf = buf (dec_out dc) @
                                   map (\<lambda>k. rd (dec_in dc) ! (k * d dc))
                                     [0..<readable (dec_in dc) div d dc],
                                 room = room (dec_out dc) - readable (dec_in dc) div d dc\<rparr>\<rparr>)
         \<and> length (drop (readable (dec_in dc) div d dc * d dc) (rd (dec_in dc)))
             = readable (dec_in dc) mod d dc"
proof -
  let ?n = "readable (dec_in dc)"
  let ?c = "?n div d dc"
  have c: "min ?c (writable (dec_out dc)) = ?c" using cap by simp
  have l: "decimator_loop (d dc) (rd (dec_in dc)) 0 (?c * d dc) []
         = Some (map (\<lambda>j. rd (dec_in dc) ! (j * d dc)) [0..<?c])"
    using decimator_loop_steps [of "d dc" "rd (dec_in dc)" 0 ?c "[]"] dpos by simp
  have r: "decimator_run dc =
           Done (dc\<lparr>dec_in := \<lparr>rd = drop (?c * d dc) (rd (dec_in dc))\<rparr>,
                    dec_out := \<lparr>buf = buf (dec_out dc) @
                                   map (\<lambda>k. rd (dec_in dc) ! (k * d dc)) [0..<?c],
                                 room = room (dec_out dc) - ?c\<rparr>\<rparr>)"
    using dpos by (simp add: decimator_run_def c l Let_def read_def written_def)
  have "?c * d dc + ?n mod d dc = ?n" by simp
  then have "length (drop (?c * d dc) (rd (dec_in dc))) = ?n mod d dc"
    unfolding readable_def length_drop by (simp add: minus_div_mult_eq_mod)
  with r show ?thesis by simp
qed

text \<open>
  The theorem at \<open>D = 3\<close> with 8 readable elements and room for 5: the elements at the
  positions 0 and 3 are forwarded, 6 are consumed and 2 stay.
\<close>

theorem decimator_forwards_witness:
  "decimator_run \<lparr>d = 3, dec_in = \<lparr>rd = [10, 11, 12, 13, 14, 15, 16, 17::int]\<rparr>,
                       dec_out = \<lparr>buf = [], room = 5\<rparr>\<rparr>
     = Done \<lparr>d = 3, dec_in = \<lparr>rd = [16, 17]\<rparr>, dec_out = \<lparr>buf = [10, 13], room = 3\<rparr>\<rparr>"
  using decimator_forwards [of "\<lparr>d = 3, dec_in = \<lparr>rd = [10, 11, 12, 13, 14, 15, 16, 17::int]\<rparr>,
                       dec_out = \<lparr>buf = [], room = 5\<rparr>\<rparr>"]
  by (simp add: readable_def writable_def upt_rec)

text \<open>
  C10. The constructor accepts every argument and stores it modulo \<open>2^32\<close>, also 0.
  An invocation of a decimator built with 0 divides by zero; an invocation divides by
  zero exactly when the stored factor is 0, and it returns exactly when the factor is
  at least 1.
\<close>

theorem decimator_zero:
  "d (decimator_ctor d' inp outp) = nat (d' mod 2 ^ 32)
   \<and> d (decimator_ctor 0 inp outp) = 0
   \<and> decimator_run (decimator_ctor 0 inp outp) = UB ''division by zero''
   \<and> (decimator_run dc = UB ''division by zero'') = (d dc = 0)
   \<and> (\<exists>dc'. decimator_run dc = Done dc') = (1 \<le> d dc)"
proof (intro conjI)
  show "d (decimator_ctor d' inp outp) = nat (d' mod 2 ^ 32)"
    by (simp add: decimator_ctor_def)
  show "d (decimator_ctor 0 inp outp) = 0" by (simp add: decimator_ctor_def)
  then show "decimator_run (decimator_ctor 0 inp outp) = UB ''division by zero''"
    by (simp add: decimator_run_def)
  show ub: "(decimator_run dc = UB ''division by zero'') = (d dc = 0)"
    by (auto simp: decimator_run_def Let_def split: option.splits)
  show "(\<exists>dc'. decimator_run dc = Done dc') = (1 \<le> d dc)"
  proof (cases "d dc = 0")
    case True
    then show ?thesis by (simp add: decimator_run_def)
  next
    case False
    let ?c = "min (readable (dec_in dc) div d dc) (writable (dec_out dc))"
    have "decimator_loop (d dc) (rd (dec_in dc)) 0 (?c * d dc) []
         = Some (map (\<lambda>j. rd (dec_in dc) ! (j * d dc)) [0..<?c])"
      using decimator_loop_steps [of "d dc" "rd (dec_in dc)" 0 ?c "[]"] False by simp
    then show ?thesis using False by (simp add: decimator_run_def Let_def)
  qed
qed

subsection \<open>file reader\<close>

lemma payload_simps [simp]:
  "payload [] = []"
  "payload (RData bs # evs) = bs @ payload evs"
  "payload (RErr # evs) = payload evs"
  "payload (evs @ evs') = payload evs @ payload evs'"
  "payload (map RData chunks) = concat chunks"
  by (simp_all add: payload_def comp_def)

lemma elems_whole:
  "length region = n * w \<Longrightarrow>
   concat (elems w n region) = region \<and> (\<forall>e\<in>set (elems w n region). length e = w)
   \<and> length (elems w n region) = n"
proof (induction n arbitrary: region)
  case 0
  then show ?case by (simp add: elems_def)
next
  case (Suc n)
  have l: "length (drop w region) = n * w" using Suc.prems by simp
  have e: "elems w (Suc n) region = take w region # elems w n (drop w region)"
    by (simp add: elems_def upt_rec [of 0 "Suc n"] map_Suc_upt [symmetric] add.commute
        del: upt_Suc)
  have "length (take w region) = w" using Suc.prems by simp
  then show ?case using Suc.IH [OF l] by (simp add: e)
qed

lemma complete_element_done:
  assumes "\<forall>c\<in>set chunks. c \<noteq> []" and "remain \<le> length (concat chunks)"
    and "reads fd = map RData chunks @ rest"
  shows "\<exists>fd'. complete_element fd region nr remain =
             Done (nr + int remain, region @ take remain (concat chunks), fd')
           \<and> seekable fd' = seekable fd
           \<and> payload (reads fd') = drop remain (concat chunks) @ payload rest"
  using assms
proof (induction chunks arbitrary: fd region nr remain)
  case Nil
  then show ?case by (simp add: complete_element.simps)
next
  case (Cons c cs)
  show ?case
  proof (cases "remain = 0")
    case True
    then show ?thesis using Cons.prems(3) by (simp add: complete_element.simps)
  next
    case False
    have c: "c \<noteq> []" using Cons.prems(1) by simp
    show ?thesis
    proof (cases "remain < length c")
      case True
      let ?fd = "fd\<lparr>reads := RData (drop remain c) # map RData cs @ rest\<rparr>"
      have r: "posix_read fd remain = Some (int remain, take remain c, ?fd)"
        using True Cons.prems(3) by (simp add: posix_read_def)
      have "complete_element fd region nr remain =
            complete_element ?fd (region @ take remain c) (nr + int remain) 0"
        by (subst complete_element.simps) (use False r in simp)
      also have "\<dots> = Done (nr + int remain, region @ take remain c, ?fd)"
        by (simp add: complete_element.simps)
      finally show ?thesis using True by auto
    next
      case ge: False
      let ?fd = "fd\<lparr>reads := map RData cs @ rest\<rparr>"
      have r: "posix_read fd remain = Some (int (length c), c, ?fd)"
        using ge Cons.prems(3) by (simp add: posix_read_def)
      have step: "complete_element fd region nr remain =
            complete_element ?fd (region @ c) (nr + int (length c)) (remain - length c)"
        by (subst complete_element.simps) (use False r c in simp)
      have p1: "\<forall>c\<in>set cs. c \<noteq> []" using Cons.prems(1) by simp
      have p2: "remain - length c \<le> length (concat cs)" using Cons.prems(2) by simp
      have p3: "reads ?fd = map RData cs @ rest" by simp
      from Cons.IH [OF p1 p2 p3, of "region @ c" "nr + int (length c)"]
      obtain fd' where ih:
        "complete_element ?fd (region @ c) (nr + int (length c)) (remain - length c) =
           Done (nr + int (length c) + int (remain - length c),
                 (region @ c) @ take (remain - length c) (concat cs), fd')"
        "seekable fd' = seekable ?fd"
        "payload (reads fd') = drop (remain - length c) (concat cs) @ payload rest"
        by blast
      show ?thesis unfolding step using ih ge by auto
    qed
  qed
qed

lemma complete_element_fatal:
  assumes "\<forall>c\<in>set chunks. c \<noteq> []" and "length (concat chunks) < remain"
    and "reads fd = map RData chunks @ bad # rest" and "bad = RErr \<or> bad = RData []"
  shows "complete_element fd region nr remain = Fatal ''partial read''"
  using assms
proof (induction chunks arbitrary: fd region nr remain)
  case Nil
  then have "\<exists>fd'. posix_read fd remain = Some (- 1, [], fd') \<or> posix_read fd remain = Some (0, [], fd')"
    by (auto simp: posix_read_def)
  then show ?case using Nil.prems(2)
    by (subst complete_element.simps) auto
next
  case (Cons c cs)
  let ?fd = "fd\<lparr>reads := map RData cs @ bad # rest\<rparr>"
  have c: "c \<noteq> []" "length c < remain" using Cons.prems(1,2) by auto
  have r: "posix_read fd remain = Some (int (length c), c, ?fd)"
    using c Cons.prems(3) by (simp add: posix_read_def)
  have step: "complete_element fd region nr remain =
        complete_element ?fd (region @ c) (nr + int (length c)) (remain - length c)"
    by (subst complete_element.simps) (use r c in simp)
  show ?case unfolding step
    by (rule Cons.IH) (use Cons.prems c in auto)
qed

lemma complete_element_hangs:
  assumes "\<forall>c\<in>set chunks. c \<noteq> []" and "length (concat chunks) < remain"
    and "reads fd = map RData chunks"
  shows "complete_element fd region nr remain = Hangs"
  using assms
proof (induction chunks arbitrary: fd region nr remain)
  case Nil
  then show ?case
    by (subst complete_element.simps) (simp add: posix_read_def)
next
  case (Cons c cs)
  let ?fd = "fd\<lparr>reads := map RData cs\<rparr>"
  have c: "c \<noteq> []" "length c < remain" using Cons.prems(1,2) by auto
  have r: "posix_read fd remain = Some (int (length c), c, ?fd)"
    using c Cons.prems(3) by (simp add: posix_read_def)
  have step: "complete_element fd region nr remain =
        complete_element ?fd (region @ c) (nr + int (length c)) (remain - length c)"
    by (subst complete_element.simps) (use r c in simp)
  show ?case unfolding step
    by (rule Cons.IH) (use Cons.prems c in auto)
qed

lemma read_again_first:
  assumes "reads fd = RData b # evs" "b \<noteq> []" "length b < sz"
  shows "read_again lp fd sz = Done (int (length b), b, fd\<lparr>reads := evs\<rparr>)"
  by (subst read_again.simps) (use assms in \<open>simp add: posix_read_def\<close>)

text \<open>
  C3. Let the first \<^verbatim>\<open>read\<close> of an invocation deliver the chunk \<open>b\<close>, shorter than
  the request and not a whole number of elements, and let the descriptor then hold the
  non-empty chunks \<open>chunks\<close>, followed by \<open>rest\<close>. \<open>remain\<close> is the number of bytes
  the torn element lacks.

  If the chunks hold at least \<open>remain\<close> bytes, the invocation returns and commits
  \<open>length b div sizeof_T + 1\<close> elements: they are whole, and their bytes are \<open>b\<close>
  followed by exactly the first \<open>remain\<close> bytes of the chunks; every later byte is
  still in the descriptor. If the chunks hold fewer bytes and the next \<^verbatim>\<open>read\<close>
  fails or returns zero, the invocation is fatal with \<^verbatim>\<open>partial read\<close>. If they hold
  fewer bytes and nothing follows, the invocation blocks.
\<close>

theorem file_reader_torn_read:
  assumes w: "0 < sizeof_T"
    and first: "reads (fdin fr) = RData b # map RData chunks @ rest"
    and short: "length b < writable (fr_out fr) * sizeof_T"
    and torn: "length b mod sizeof_T \<noteq> 0"
    and nonempty: "\<forall>c\<in>set chunks. c \<noteq> []"
  defines "remain \<equiv> sizeof_T - length b mod sizeof_T"
  defines "region \<equiv> b @ take remain (concat chunks)"
  defines "n \<equiv> length b div sizeof_T + 1"
  shows "(remain \<le> length (concat chunks) \<longrightarrow>
            (\<exists>fd'. file_reader_run sizeof_T fr =
                     Done (fr\<lparr>fdin := fd',
                              fr_out := written (elems sizeof_T n region) (fr_out fr)\<rparr>)
                 \<and> seekable fd' = seekable (fdin fr)
                 \<and> payload (reads fd') = drop remain (concat chunks) @ payload rest)
            \<and> length (elems sizeof_T n region) = n
            \<and> concat (elems sizeof_T n region) = region
            \<and> (\<forall>e\<in>set (elems sizeof_T n region). length e = sizeof_T))
       \<and> (length (concat chunks) < remain
            \<and> (\<exists>rest'. rest = RErr # rest' \<or> rest = RData [] # rest') \<longrightarrow>
            file_reader_run sizeof_T fr = Fatal ''partial read'')
       \<and> (length (concat chunks) < remain \<and> rest = [] \<longrightarrow>
            file_reader_run sizeof_T fr = Hangs)"
proof -
  let ?fd = "(fdin fr)\<lparr>reads := map RData chunks @ rest\<rparr>"
  have b: "b \<noteq> []" using torn by auto
  have wpos: "0 < writable (fr_out fr)" using short by (cases "writable (fr_out fr)") auto
  have again: "read_again (fr_loop fr) (fdin fr) (writable (fr_out fr) * sizeof_T)
      = Done (int (length b), b, ?fd)"
    by (rule read_again_first [OF first b short])
  have run: "file_reader_run sizeof_T fr =
      (case complete_element ?fd b (int (length b)) remain of
         Fatal m \<Rightarrow> Fatal m
       | UB m \<Rightarrow> UB m
       | Hangs \<Rightarrow> Hangs
       | Done (nr', region, fd'') \<Rightarrow>
           Done (fr\<lparr>fdin := fd'',
                    fr_out := written (elems sizeof_T (nat nr' div sizeof_T) region) (fr_out fr)\<rparr>))"
    using b w wpos torn by (simp add: file_reader_run_def Let_def again remain_def)
  have pos: "remain \<le> sizeof_T" "0 < remain"
    using w by (simp_all add: remain_def)
  have tot: "length b + remain = n * sizeof_T"
  proof -
    have m: "length b mod sizeof_T \<le> length b" by (rule mod_less_eq_dividend)
    have d: "length b - length b mod sizeof_T = length b div sizeof_T * sizeof_T"
      by (rule minus_mod_eq_div_mult)
    have lt: "length b mod sizeof_T < sizeof_T" using w by simp
    have "length b + (sizeof_T - length b mod sizeof_T)
        = (length b - length b mod sizeof_T) + sizeof_T"
      using m lt by linarith
    also have "\<dots> = (length b div sizeof_T + 1) * sizeof_T"
      unfolding d by simp
    finally show ?thesis unfolding remain_def n_def .
  qed
  show ?thesis
  proof (intro conjI impI)
    assume le: "remain \<le> length (concat chunks)"
    have len: "length region = n * sizeof_T" using le tot by (simp add: region_def)
    note whole = elems_whole [OF len]
    show "length (elems sizeof_T n region) = n" using whole by simp
    show "concat (elems sizeof_T n region) = region" using whole by simp
    show "\<forall>e\<in>set (elems sizeof_T n region). length e = sizeof_T" using whole by simp
    have rd: "reads ?fd = map RData chunks @ rest" by simp
    from complete_element_done [OF nonempty le rd, of b "int (length b)"]
    obtain fd' where c: "complete_element ?fd b (int (length b)) remain =
             Done (int (length b) + int remain, b @ take remain (concat chunks), fd')"
      and s: "seekable fd' = seekable ?fd"
      and p: "payload (reads fd') = drop remain (concat chunks) @ payload rest"
      by blast
    have "nat (int (length b) + int remain) div sizeof_T = n"
      using tot w by (simp add: nat_add_distrib)
    then have "file_reader_run sizeof_T fr =
        Done (fr\<lparr>fdin := fd', fr_out := written (elems sizeof_T n region) (fr_out fr)\<rparr>)"
      unfolding run c by (simp add: region_def)
    then show "\<exists>fd'. file_reader_run sizeof_T fr =
                     Done (fr\<lparr>fdin := fd',
                              fr_out := written (elems sizeof_T n region) (fr_out fr)\<rparr>)
                 \<and> seekable fd' = seekable (fdin fr)
                 \<and> payload (reads fd') = drop remain (concat chunks) @ payload rest"
      using s p by auto
  next
    assume a: "length (concat chunks) < remain
            \<and> (\<exists>rest'. rest = RErr # rest' \<or> rest = RData [] # rest')"
    then obtain bad rest' where r: "rest = bad # rest'" "bad = RErr \<or> bad = RData []"
      by auto
    have rd: "reads ?fd = map RData chunks @ bad # rest'" using r by simp
    have "complete_element ?fd b (int (length b)) remain = Fatal ''partial read''"
      using a by (intro complete_element_fatal [OF nonempty _ rd r(2)]) simp
    then show "file_reader_run sizeof_T fr = Fatal ''partial read''"
      unfolding run by simp
  next
    assume a: "length (concat chunks) < remain \<and> rest = []"
    have rd: "reads ?fd = map RData chunks" using a by simp
    have "complete_element ?fd b (int (length b)) remain = Hangs"
      using a by (intro complete_element_hangs [OF nonempty _ rd]) simp
    then show "file_reader_run sizeof_T fr = Hangs"
      unfolding run by simp
  qed
qed

text \<open>
  The theorem at element width 4 and room for 2 elements: the first \<^verbatim>\<open>read\<close>
  delivers 6 of the 8 bytes asked for, the next one the 2 bytes that remain, and 2
  whole elements are committed. With one byte delivered and then a failing
  \<^verbatim>\<open>read\<close> the invocation is fatal; with one byte delivered and nothing after it,
  it blocks.
\<close>

theorem file_reader_torn_read_witness:
  "(\<exists>fd'. file_reader_run 4
       \<lparr>fr_loop = False,
        fdin = \<lparr>reads = [RData [1, 2, 3, 4, 5, 6], RData [7, 8]], seekable = False\<rparr>,
        fr_out = \<lparr>buf = [], room = 2\<rparr>\<rparr>
     = Done \<lparr>fr_loop = False, fdin = fd',
            fr_out = \<lparr>buf = [[1, 2, 3, 4], [5, 6, 7, 8]], room = 0\<rparr>\<rparr>
     \<and> payload (reads fd') = [])
   \<and> file_reader_run 4
       \<lparr>fr_loop = False,
        fdin = \<lparr>reads = [RData [1, 2, 3, 4, 5, 6], RData [7], RErr], seekable = False\<rparr>,
        fr_out = \<lparr>buf = [], room = 2\<rparr>\<rparr>
     = Fatal ''partial read''
   \<and> file_reader_run 4
       \<lparr>fr_loop = False,
        fdin = \<lparr>reads = [RData [1, 2, 3, 4, 5, 6], RData [7]], seekable = False\<rparr>,
        fr_out = \<lparr>buf = [], room = 2\<rparr>\<rparr>
     = Hangs"
proof (intro conjI)
  show "\<exists>fd'. file_reader_run 4
       \<lparr>fr_loop = False,
        fdin = \<lparr>reads = [RData [1, 2, 3, 4, 5, 6], RData [7, 8]], seekable = False\<rparr>,
        fr_out = \<lparr>buf = [], room = 2\<rparr>\<rparr>
     = Done \<lparr>fr_loop = False, fdin = fd',
            fr_out = \<lparr>buf = [[1, 2, 3, 4], [5, 6, 7, 8]], room = 0\<rparr>\<rparr>
     \<and> payload (reads fd') = []"
    using file_reader_torn_read [of 4
       "\<lparr>fr_loop = False,
        fdin = \<lparr>reads = [RData [1, 2, 3, 4, 5, 6], RData [7, 8]], seekable = False\<rparr>,
        fr_out = \<lparr>buf = [], room = 2\<rparr>\<rparr>"
       "[1, 2, 3, 4, 5, 6]" "[[7, 8]]" "[]"]
    by (auto simp: writable_def written_def elems_def upt_rec)
  show "file_reader_run 4
       \<lparr>fr_loop = False,
        fdin = \<lparr>reads = [RData [1, 2, 3, 4, 5, 6], RData [7], RErr], seekable = False\<rparr>,
        fr_out = \<lparr>buf = [], room = 2\<rparr>\<rparr>
     = Fatal ''partial read''"
    using file_reader_torn_read [of 4
       "\<lparr>fr_loop = False,
        fdin = \<lparr>reads = [RData [1, 2, 3, 4, 5, 6], RData [7], RErr], seekable = False\<rparr>,
        fr_out = \<lparr>buf = [], room = 2\<rparr>\<rparr>"
       "[1, 2, 3, 4, 5, 6]" "[[7]]" "[RErr]"]
    by (simp add: writable_def)
  show "file_reader_run 4
       \<lparr>fr_loop = False,
        fdin = \<lparr>reads = [RData [1, 2, 3, 4, 5, 6], RData [7]], seekable = False\<rparr>,
        fr_out = \<lparr>buf = [], room = 2\<rparr>\<rparr>
     = Hangs"
    using file_reader_torn_read [of 4
       "\<lparr>fr_loop = False,
        fdin = \<lparr>reads = [RData [1, 2, 3, 4, 5, 6], RData [7]], seekable = False\<rparr>,
        fr_out = \<lparr>buf = [], room = 2\<rparr>\<rparr>"
       "[1, 2, 3, 4, 5, 6]" "[[7]]" "[]"]
    by (simp add: writable_def)
qed

text \<open>
  The same invocation, evaluated: both entries of the descriptor are used up, one
  \<^verbatim>\<open>read\<close> after the first. And an invocation whose completing reads deliver one
  byte and then the end of the data.
\<close>

lemma file_reader_example:
  "file_reader_run 4
       \<lparr>fr_loop = False,
        fdin = \<lparr>reads = [RData [1, 2, 3, 4, 5, 6], RData [7, 8]], seekable = False\<rparr>,
        fr_out = \<lparr>buf = [], room = 2\<rparr>\<rparr>
   = Done \<lparr>fr_loop = False, fdin = \<lparr>reads = [], seekable = False\<rparr>,
          fr_out = \<lparr>buf = [[1, 2, 3, 4], [5, 6, 7, 8]], room = 0\<rparr>\<rparr>"
  by code_simp

lemma file_reader_example_fatal:
  "file_reader_run 4
       \<lparr>fr_loop = False,
        fdin = \<lparr>reads = [RData [1, 2, 3, 4, 5, 6], RData [7], RData []], seekable = False\<rparr>,
        fr_out = \<lparr>buf = [], room = 2\<rparr>\<rparr>
   = Fatal ''partial read''"
  by code_simp

subsection \<open>file printer\<close>

lemma length_spec_emitted: "length (spec_emitted p dcm xs) \<le> length xs"
  by (induction xs arbitrary: p) (auto simp: le_SucI)

lemma snprintf_short:
  "sprintf fmt v = Some s \<Longrightarrow> length s < 256 \<Longrightarrow>
   snprintf 256 sprintf fmt v = (int (length s), s @ [CHR 0x00])"
  by (simp add: snprintf_def)

lemma posix_write_accept:
  "writes fd = WAccept k # evs \<Longrightarrow> length bs \<le> k \<Longrightarrow>
   posix_write fd bs = Some (int (length bs), fd\<lparr>sink := sink fd @ bs, writes := evs\<rparr>)"
  by (simp add: posix_write_def)

lemma file_printer_loop_spec:
  assumes "\<forall>x\<in>set xs. \<exists>s. sprintf (format fp) (x * scale fp) = Some s \<and> length s < 256"
    and "length xs \<le> length (writes (fp_fdout fp))"
    and "\<forall>e\<in>set (writes (fp_fdout fp)). \<exists>k. e = WAccept k \<and> 255 \<le> k"
  shows "file_printer_loop sprintf xs fp =
     Done (fp\<lparr>phase := spec_phase (phase fp) (decimation fp) xs,
              fp_fdout := \<lparr>sink = sink (fp_fdout fp) @
                    concat (map (line_of sprintf fp) (spec_emitted (phase fp) (decimation fp) xs)),
                  writes = drop (length (spec_emitted (phase fp) (decimation fp) xs))
                             (writes (fp_fdout fp))\<rparr>\<rparr>)"
  using assms
proof (induction xs arbitrary: fp)
  case Nil
  then show ?case by simp
next
  case (Cons x xs)
  obtain s where s: "sprintf (format fp) (x * scale fp) = Some s" "length s < 256"
    using Cons.prems(1) by auto
  obtain k evs where w: "writes (fp_fdout fp) = WAccept k # evs" "255 \<le> k"
    using Cons.prems(2,3) by (cases "writes (fp_fdout fp)") auto
  show ?case
  proof (cases "decimation fp \<le> phase fp + 1")
    case True
    let ?fp' = "fp\<lparr>phase := phase fp + 1 - decimation fp,
                   fp_fdout := (fp_fdout fp)\<lparr>sink := sink (fp_fdout fp) @ s, writes := evs\<rparr>\<rparr>"
    have step: "file_printer_loop sprintf (x # xs) fp = file_printer_loop sprintf xs ?fp'"
      using True s w
      by (simp add: Let_def snprintf_short posix_write_accept)
    have ih: "file_printer_loop sprintf xs ?fp' =
       Done (?fp'\<lparr>phase := spec_phase (phase ?fp') (decimation ?fp') xs,
              fp_fdout := \<lparr>sink = sink (fp_fdout ?fp') @
                    concat (map (line_of sprintf ?fp') (spec_emitted (phase ?fp') (decimation ?fp') xs)),
                  writes = drop (length (spec_emitted (phase ?fp') (decimation ?fp') xs))
                             (writes (fp_fdout ?fp'))\<rparr>\<rparr>)"
      apply (rule Cons.IH)
      using Cons.prems w by auto
    have l: "line_of sprintf ?fp' = line_of sprintf fp"
      by (rule ext) (simp add: line_of_def)
    have hx: "line_of sprintf fp x = s" using s by (simp add: line_of_def)
    show ?thesis
      unfolding step ih using True by (simp add: l w hx)
  next
    case False
    let ?fp' = "fp\<lparr>phase := phase fp + 1\<rparr>"
    have step: "file_printer_loop sprintf (x # xs) fp = file_printer_loop sprintf xs ?fp'"
      using False by (simp add: Let_def)
    have ih: "file_printer_loop sprintf xs ?fp' =
       Done (?fp'\<lparr>phase := spec_phase (phase ?fp') (decimation ?fp') xs,
              fp_fdout := \<lparr>sink = sink (fp_fdout ?fp') @
                    concat (map (line_of sprintf ?fp') (spec_emitted (phase ?fp') (decimation ?fp') xs)),
                  writes = drop (length (spec_emitted (phase ?fp') (decimation ?fp') xs))
                             (writes (fp_fdout ?fp'))\<rparr>\<rparr>)"
      apply (rule Cons.IH)
      using Cons.prems by auto
    have l: "line_of sprintf ?fp' = line_of sprintf fp"
      by (rule ext) (simp add: line_of_def)
    show ?thesis
      unfolding step ih using False by (simp add: l)
  qed
qed

lemma spec_closed:
  assumes "1 \<le> dcm" "0 \<le> p" "p < dcm"
  shows "spec_phase p dcm xs = (p + int (length xs)) mod dcm
       \<and> spec_emitted p dcm xs = nths xs {i. (p + int i + 1) mod dcm = 0}"
  using assms
proof (induction xs arbitrary: p)
  case Nil
  then show ?case by simp
next
  case (Cons x xs)
  show ?case
  proof (cases "dcm \<le> p + 1")
    case True
    then have p: "p + 1 = dcm" using Cons.prems by simp
    have ih: "spec_phase 0 dcm xs = (0 + int (length xs)) mod dcm
       \<and> spec_emitted 0 dcm xs = nths xs {i. (0 + int i + 1) mod dcm = 0}"
      by (rule Cons.IH) (use Cons.prems in auto)
    have ph: "spec_phase p dcm (x # xs) = spec_phase 0 dcm xs" using True p by simp
    have em: "spec_emitted p dcm (x # xs) = x # spec_emitted 0 dcm xs" using True p by simp
    have a: "(p + int (length (x # xs))) mod dcm = (0 + int (length xs)) mod dcm"
    proof -
      have "p + int (length (x # xs)) = dcm + (0 + int (length xs))" using p by simp
      then show ?thesis by (metis mod_add_self1)
    qed
    have b: "((p + int (Suc j) + 1) mod dcm = 0) = ((0 + int j + 1) mod dcm = 0)" for j
    proof -
      have "p + int (Suc j) + 1 = dcm + (0 + int j + 1)" using p by simp
      then show ?thesis by (metis mod_add_self1)
    qed
    have c: "(p + int 0 + 1) mod dcm = 0" using p by simp
    have n: "nths (x # xs) {i. (p + int i + 1) mod dcm = 0}
           = x # nths xs {i. (0 + int i + 1) mod dcm = 0}"
      by (simp only: nths_Cons mem_Collect_eq b c) simp
    show ?thesis unfolding ph em a n using ih by simp
  next
    case False
    then have lt: "p + 1 < dcm" by simp
    have ih: "spec_phase (p + 1) dcm xs = (p + 1 + int (length xs)) mod dcm
       \<and> spec_emitted (p + 1) dcm xs = nths xs {i. (p + 1 + int i + 1) mod dcm = 0}"
      by (rule Cons.IH) (use Cons.prems lt in auto)
    have ph: "spec_phase p dcm (x # xs) = spec_phase (p + 1) dcm xs" using False by simp
    have em: "spec_emitted p dcm (x # xs) = spec_emitted (p + 1) dcm xs" using False by simp
    have c: "(p + int 0 + 1) mod dcm \<noteq> 0" using lt Cons.prems by simp
    have a: "(p + int (length (x # xs))) = p + 1 + int (length xs)" by simp
    have b: "(p + int (Suc j) + 1) = (p + 1 + int j + 1)" for j by simp
    have n: "nths (x # xs) {i. (p + int i + 1) mod dcm = 0}
           = nths xs {i. (p + 1 + int i + 1) mod dcm = 0}"
      by (simp only: nths_Cons mem_Collect_eq b c) simp
    show ?thesis unfolding ph em a n using ih by simp
  qed
qed

text \<open>
  C7. Let every readable element have a text of fewer than 256 characters, and let the
  destination take every write in full. Then an invocation returns; the phase counter
  has been incremented once per element, and each time it reached the decimation factor
  the factor was subtracted and exactly one line, the text of that element times the
  scale, was written with one write; all readable elements are consumed, however many
  lines were written. For a decimation factor of at least 1 and a phase below it, the
  elements written are those at the positions \<open>i\<close> with
  \<open>(phase + i + 1) mod decimation = 0\<close>, and the phase afterwards is
  \<open>(phase + n) mod decimation\<close>.
\<close>

theorem file_printer_lines:
  fixes fp :: "('a::times) file_printer"
  assumes fmt: "\<forall>x\<in>set (rd (fp_in fp)).
              \<exists>s. sprintf (format fp) (x * scale fp) = Some s \<and> length s < 256"
    and enough: "readable (fp_in fp) \<le> length (writes (fp_fdout fp))"
    and accepts: "\<forall>e\<in>set (writes (fp_fdout fp)). \<exists>k. e = WAccept k \<and> 255 \<le> k"
  shows "file_printer_run sprintf fp =
           Done (fp\<lparr>phase := spec_phase (phase fp) (decimation fp) (rd (fp_in fp)),
                    fp_fdout :=
                      \<lparr>sink = sink (fp_fdout fp) @
                         concat (map (line_of sprintf fp)
                           (spec_emitted (phase fp) (decimation fp) (rd (fp_in fp)))),
                       writes = drop
                         (length (spec_emitted (phase fp) (decimation fp) (rd (fp_in fp))))
                         (writes (fp_fdout fp))\<rparr>,
                    fp_in := \<lparr>rd = []\<rparr>\<rparr>)
       \<and> (1 \<le> decimation fp \<and> 0 \<le> phase fp \<and> phase fp < decimation fp \<longrightarrow>
            file_printer_run sprintf fp =
              Done (fp\<lparr>phase := (phase fp + int (readable (fp_in fp))) mod decimation fp,
                       fp_fdout :=
                         \<lparr>sink = sink (fp_fdout fp) @
                            concat (map (line_of sprintf fp)
                              (nths (rd (fp_in fp))
                                 {i. (phase fp + int i + 1) mod decimation fp = 0})),
                          writes = drop
                            (length (nths (rd (fp_in fp))
                                 {i. (phase fp + int i + 1) mod decimation fp = 0}))
                            (writes (fp_fdout fp))\<rparr>,
                       fp_in := \<lparr>rd = []\<rparr>\<rparr>))"
proof -
  have loop: "file_printer_loop sprintf (rd (fp_in fp)) fp =
     Done (fp\<lparr>phase := spec_phase (phase fp) (decimation fp) (rd (fp_in fp)),
              fp_fdout := \<lparr>sink = sink (fp_fdout fp) @
                    concat (map (line_of sprintf fp)
                      (spec_emitted (phase fp) (decimation fp) (rd (fp_in fp)))),
                  writes = drop (length (spec_emitted (phase fp) (decimation fp) (rd (fp_in fp))))
                             (writes (fp_fdout fp))\<rparr>\<rparr>)"
    by (rule file_printer_loop_spec) (use assms in \<open>simp_all add: readable_def\<close>)
  have run: "file_printer_run sprintf fp =
           Done (fp\<lparr>phase := spec_phase (phase fp) (decimation fp) (rd (fp_in fp)),
                    fp_fdout :=
                      \<lparr>sink = sink (fp_fdout fp) @
                         concat (map (line_of sprintf fp)
                           (spec_emitted (phase fp) (decimation fp) (rd (fp_in fp)))),
                       writes = drop
                         (length (spec_emitted (phase fp) (decimation fp) (rd (fp_in fp))))
                         (writes (fp_fdout fp))\<rparr>,
                    fp_in := \<lparr>rd = []\<rparr>\<rparr>)"
    by (simp add: file_printer_run_def Let_def readable_def loop read_def)
  show ?thesis
  proof (intro conjI impI)
    show "file_printer_run sprintf fp =
           Done (fp\<lparr>phase := spec_phase (phase fp) (decimation fp) (rd (fp_in fp)),
                    fp_fdout :=
                      \<lparr>sink = sink (fp_fdout fp) @
                         concat (map (line_of sprintf fp)
                           (spec_emitted (phase fp) (decimation fp) (rd (fp_in fp)))),
                       writes = drop
                         (length (spec_emitted (phase fp) (decimation fp) (rd (fp_in fp))))
                         (writes (fp_fdout fp))\<rparr>,
                    fp_in := \<lparr>rd = []\<rparr>\<rparr>)"
      by (rule run)
  next
    assume "1 \<le> decimation fp \<and> 0 \<le> phase fp \<and> phase fp < decimation fp"
    then have c: "spec_phase (phase fp) (decimation fp) (rd (fp_in fp))
          = (phase fp + int (length (rd (fp_in fp)))) mod decimation fp
       \<and> spec_emitted (phase fp) (decimation fp) (rd (fp_in fp))
          = nths (rd (fp_in fp)) {i. (phase fp + int i + 1) mod decimation fp = 0}"
      by (intro spec_closed) simp_all
    show "file_printer_run sprintf fp =
              Done (fp\<lparr>phase := (phase fp + int (readable (fp_in fp))) mod decimation fp,
                       fp_fdout :=
                         \<lparr>sink = sink (fp_fdout fp) @
                            concat (map (line_of sprintf fp)
                              (nths (rd (fp_in fp))
                                 {i. (phase fp + int i + 1) mod decimation fp = 0})),
                          writes = drop
                            (length (nths (rd (fp_in fp))
                                 {i. (phase fp + int i + 1) mod decimation fp = 0}))
                            (writes (fp_fdout fp))\<rparr>,
                       fp_in := \<lparr>rd = []\<rparr>\<rparr>)"
      unfolding run using c by (simp add: readable_def)
  qed
qed

text \<open>
  The theorem at decimation 3 and phase 0, with the seven elements 10, 20, ..., 70 and
  the format \<^verbatim>\<open>%d\<close> followed by a newline: two lines are written, for the third
  and the sixth element, two writes are used, all seven elements are consumed and the
  phase is 1.
\<close>

theorem file_printer_lines_witness:
  "file_printer_run (\<lambda>f v. Some (sprintf_d f v))
     (file_printer_ctor (''%d'' @ [CHR 0x0A]) \<lparr>rd = [10, 20, 30, 40, 50, 60, 70 :: int]\<rparr>
        \<lparr>sink = [], writes = [WAccept 4096, WAccept 4096, WAccept 4096, WAccept 4096,
           WAccept 4096, WAccept 4096, WAccept 4096]\<rparr> 3)
   = Done \<lparr>scale = 1, decimation = 3, fp_in = \<lparr>rd = []\<rparr>, format = ''%d'' @ [CHR 0x0A],
          fp_fdout = \<lparr>sink = ''30'' @ [CHR 0x0A] @ ''60'' @ [CHR 0x0A],
                      writes = [WAccept 4096, WAccept 4096, WAccept 4096, WAccept 4096,
                         WAccept 4096]\<rparr>,
          phase = 1\<rparr>"
  using file_printer_lines [of
     "file_printer_ctor (''%d'' @ [CHR 0x0A]) \<lparr>rd = [10, 20, 30, 40, 50, 60, 70 :: int]\<rparr>
        \<lparr>sink = [], writes = [WAccept 4096, WAccept 4096, WAccept 4096, WAccept 4096,
           WAccept 4096, WAccept 4096, WAccept 4096]\<rparr> 3"
     "\<lambda>f v. Some (sprintf_d f v)"]
  by (simp add: file_printer_ctor_def readable_def show_int_def line_of_def)

text \<open>
  C8. A format of 253 plain characters, \<^verbatim>\<open>%d\<close> and a newline gives the element 42 a
  text of 256 characters, one more than \<^verbatim>\<open>buf\<close> can hold with its terminating zero.
  \<^verbatim>\<open>snprintf\<close> returns 256, which is not negative; \<^verbatim>\<open>write\<close> is asked for 256
  bytes of \<^verbatim>\<open>buf\<close>, takes them and returns 256; the invocation goes on and returns.
  The destination has received the first 255 characters of the text and a zero byte.
  No fatal condition is reported.
\<close>

theorem file_printer_overflow_not_fatal:
  "length (sprintf_d (replicate 253 CHR ''#'' @ ''%d'' @ [CHR 0x0A]) 42) = 256
   \<and> file_printer_run (\<lambda>f v. Some (sprintf_d f v))
       (file_printer_ctor (replicate 253 CHR ''#'' @ ''%d'' @ [CHR 0x0A]) \<lparr>rd = [42 :: int]\<rparr>
          \<lparr>sink = [], writes = [WAccept 4096]\<rparr> 1)
     = Done \<lparr>scale = 1, decimation = 1, fp_in = \<lparr>rd = []\<rparr>,
            format = replicate 253 CHR ''#'' @ ''%d'' @ [CHR 0x0A],
            fp_fdout = \<lparr>sink = replicate 253 CHR ''#'' @ ''42'' @ [CHR 0x00], writes = []\<rparr>,
            phase = 0\<rparr>"
  by code_simp

text \<open>
  With a text of more than 256 characters \<^verbatim>\<open>write\<close> is asked for bytes beyond the end
  of \<^verbatim>\<open>buf\<close>; again no fatal condition is reported.
\<close>

lemma file_printer_overflow_beyond_buf:
  "file_printer_run (\<lambda>f v. Some (sprintf_d f v))
     (file_printer_ctor (replicate 300 CHR ''#'' @ ''%d'' @ [CHR 0x0A]) \<lparr>rd = [42 :: int]\<rparr>
        \<lparr>sink = [], writes = [WAccept 4096]\<rparr> 1)
   = UB ''write reads beyond buf''"
  by code_simp

subsection \<open>Invocations that find nothing to do\<close>

lemma serializer_loop_stops:
  "readable (ser_in s) < nin s \<or> writable (ser_out s) < nout s \<Longrightarrow>
   serializer_loop sizeof_Tout s = Some s"
  by (subst serializer_loop.simps) auto

text \<open>
  C9, as amended. An invocation that finds no readable element on its input stream, or
  no room on its output stream, returns with the streams and the whole block as they
  were: for the file reader, the file writer, the file printer, the array printer, the
  item counter, the buffer reader and the buffer writer; for the decimator with a
  factor of at least 1; for a serializer with \<open>nin\<close> and \<open>nout\<close> of at least 1, as
  the constructor builds it; for the rate estimator when its output has no room; and
  for the rate estimator with an empty input when the denominator sum is below
  \<^verbatim>\<open>sample_size\<close>. A rate estimator with an empty input, room in its output and a
  denominator sum that has reached \<^verbatim>\<open>sample_size\<close> consumes nothing, writes the
  quotient of its two sums and sets both to zero.
\<close>

theorem no_work:
  fixes fp :: "('a::times) file_printer"
    and cp :: "('b::times) file_carrayprinter"
    and ic :: "('c, 'd::semiring_1) itemcounter"
    and dc :: "'e decimator"
    and r r' r'' :: "('f::{ring_1,ord}) rate_estimator"
    and br :: "'g buffer_reader"
    and bw :: "'h buffer_writer"
  shows "(writable (fr_out fr) = 0 \<longrightarrow> file_reader_run sizeof_T fr = Done fr)
       \<and> (readable (fw_in fw) = 0 \<longrightarrow> file_writer_run sizeof_T fw = Done fw)
       \<and> (readable (fp_in fp) = 0 \<longrightarrow> file_printer_run sprintf fp = Done fp)
       \<and> (readable (cp_in cp) = 0 \<longrightarrow> file_carrayprinter_run fprintf_n fprintf_c cp = Done cp)
       \<and> (readable (ic_in ic) = 0 \<or> writable (ic_out ic) = 0 \<longrightarrow> itemcounter_run ic = Done ic)
       \<and> (1 \<le> d dc \<and> (readable (dec_in dc) = 0 \<or> writable (dec_out dc) = 0) \<longrightarrow>
            decimator_run dc = Done dc)
       \<and> (writable (rate r) = 0 \<longrightarrow> rate_estimator_run r = Done r)
       \<and> ((readable (re_num r') = 0 \<or> readable (re_den r') = 0)
            \<and> \<not> of_int (sample_size r') \<le> acc_den r' \<longrightarrow>
            rate_estimator_run r' = Done r')
       \<and> ((readable (re_num r'') = 0 \<or> readable (re_den r'') = 0)
            \<and> 1 \<le> writable (rate r'') \<and> of_int (sample_size r'') \<le> acc_den r'' \<longrightarrow>
            rate_estimator_run r'' =
              Done (r''\<lparr>rate := write_elem (FQuot (acc_num r'') (acc_den r'')) (rate r''),
                        acc_num := 0, acc_den := 0\<rparr>))
       \<and> (1 \<le> nin s \<and> 1 \<le> nout s
            \<and> (readable (ser_in s) = 0 \<or> writable (ser_out s) = 0) \<longrightarrow>
            serializer_run sizeof_Tout s = Done s)
       \<and> (writable (br_out br) = 0 \<longrightarrow> buffer_reader_run br = Done br)
       \<and> (readable (bw_in bw) = 0 \<longrightarrow> buffer_writer_run bw = Done bw)"
proof (intro conjI impI)
  assume "writable (fr_out fr) = 0"
  then show "file_reader_run sizeof_T fr = Done fr"
    by (simp add: file_reader_run_def)
next
  assume "readable (fw_in fw) = 0"
  then show "file_writer_run sizeof_T fw = Done fw"
    by (simp add: file_writer_run_def)
next
  assume "readable (fp_in fp) = 0"
  then show "file_printer_run sprintf fp = Done fp"
    by (simp add: file_printer_run_def read_def)
next
  assume "readable (cp_in cp) = 0"
  then show "file_carrayprinter_run fprintf_n fprintf_c cp = Done cp"
    by (simp add: file_carrayprinter_run_def read_def split: option.splits)
next
  assume "readable (ic_in ic) = 0 \<or> writable (ic_out ic) = 0"
  then show "itemcounter_run ic = Done ic"
    by (auto simp: itemcounter_run_def)
next
  assume a: "1 \<le> d dc \<and> (readable (dec_in dc) = 0 \<or> writable (dec_out dc) = 0)"
  then have c: "min (readable (dec_in dc) div d dc) (writable (dec_out dc)) = 0"
    by auto
  show "decimator_run dc = Done dc"
    using a by (simp add: decimator_run_def c decimator_loop.simps read_def written_def)
next
  assume "writable (rate r) = 0"
  then show "rate_estimator_run r = Done r"
    by (simp add: rate_estimator_run_def)
next
  assume a: "(readable (re_num r') = 0 \<or> readable (re_den r') = 0)
            \<and> \<not> of_int (sample_size r') \<le> acc_den r'"
  then have c: "min (readable (re_num r')) (readable (re_den r')) = 0" by auto
  show "rate_estimator_run r' = Done r'"
    using a by (simp add: rate_estimator_run_def c read_def)
next
  assume a: "(readable (re_num r'') = 0 \<or> readable (re_den r'') = 0)
            \<and> 1 \<le> writable (rate r'') \<and> of_int (sample_size r'') \<le> acc_den r''"
  then have c: "min (readable (re_num r'')) (readable (re_den r'')) = 0" by auto
  have nw: "\<not> writable (rate r'') < 1" using a by simp
  show "rate_estimator_run r'' =
      Done (r''\<lparr>rate := write_elem (FQuot (acc_num r'') (acc_den r'')) (rate r''),
                acc_num := 0, acc_den := 0\<rparr>)"
    using a by (simp add: rate_estimator_run_def c nw read_def)
next
  assume a: "1 \<le> nin s \<and> 1 \<le> nout s
            \<and> (readable (ser_in s) = 0 \<or> writable (ser_out s) = 0)"
  then have "serializer_loop sizeof_Tout s = Some s"
    by (intro serializer_loop_stops) auto
  then show "serializer_run sizeof_Tout s = Done s"
    by (simp add: serializer_run_def)
next
  assume "writable (br_out br) = 0"
  then show "buffer_reader_run br = Done br"
    by (simp add: buffer_reader_run_def written_def)
next
  assume "readable (bw_in bw) = 0"
  then show "buffer_writer_run bw = Done bw"
    by (simp add: buffer_writer_run_def read_def readable_def)
qed

text \<open>
  The theorem on one block of each kind, with a hypothesis of each conjunct true.
\<close>

theorem no_work_witness:
  "file_reader_run 4
     \<lparr>fr_loop = False, fdin = \<lparr>reads = [RData [1, 2, 3, 4]], seekable = False\<rparr>,
      fr_out = \<lparr>buf = [], room = 0\<rparr>\<rparr>
   = Done \<lparr>fr_loop = False, fdin = \<lparr>reads = [RData [1, 2, 3, 4]], seekable = False\<rparr>,
      fr_out = \<lparr>buf = [], room = 0\<rparr>\<rparr>
   \<and> file_writer_run 4 \<lparr>fw_in = \<lparr>rd = []\<rparr>, fw_fdout = \<lparr>sink = [], writes = [WAccept 8]\<rparr>\<rparr>
     = Done \<lparr>fw_in = \<lparr>rd = []\<rparr>, fw_fdout = \<lparr>sink = [], writes = [WAccept 8]\<rparr>\<rparr>
   \<and> file_printer_run (\<lambda>f v. Some (sprintf_d f v))
       \<lparr>scale = 1 :: int, decimation = 3, fp_in = \<lparr>rd = []\<rparr>, format = ''%d'',
        fp_fdout = \<lparr>sink = [], writes = [WAccept 8]\<rparr>, phase = 2\<rparr>
     = Done \<lparr>scale = 1, decimation = 3, fp_in = \<lparr>rd = []\<rparr>, format = ''%d'',
        fp_fdout = \<lparr>sink = [], writes = [WAccept 8]\<rparr>, phase = 2\<rparr>
   \<and> file_carrayprinter_run (\<lambda>f n. f) (\<lambda>f a b. f)
       \<lparr>cp_scale = 1 :: int, cp_in = \<lparr>rd = []\<rparr>, head = ''h'', cp_format = ''f'',
        tail = ''t'', fout = Some []\<rparr>
     = Done \<lparr>cp_scale = 1, cp_in = \<lparr>rd = []\<rparr>, head = ''h'', cp_format = ''f'',
        tail = ''t'', fout = Some []\<rparr>
   \<and> itemcounter_run \<lparr>ic_in = \<lparr>rd = [5 :: int]\<rparr>, ic_out = \<lparr>buf = [] :: int list, room = 0\<rparr>\<rparr>
     = Done \<lparr>ic_in = \<lparr>rd = [5]\<rparr>, ic_out = \<lparr>buf = [], room = 0\<rparr>\<rparr>
   \<and> decimator_run \<lparr>d = 2, dec_in = \<lparr>rd = [1, 2, 3 :: int]\<rparr>, dec_out = \<lparr>buf = [], room = 0\<rparr>\<rparr>
     = Done \<lparr>d = 2, dec_in = \<lparr>rd = [1, 2, 3]\<rparr>, dec_out = \<lparr>buf = [], room = 0\<rparr>\<rparr>
   \<and> rate_estimator_run
       \<lparr>sample_size = 100, re_num = \<lparr>rd = [3]\<rparr>, re_den = \<lparr>rd = [60]\<rparr>,
        rate = \<lparr>buf = [], room = 0\<rparr>, acc_num = 5 :: int, acc_den = 99\<rparr>
     = Done \<lparr>sample_size = 100, re_num = \<lparr>rd = [3]\<rparr>, re_den = \<lparr>rd = [60]\<rparr>,
        rate = \<lparr>buf = [], room = 0\<rparr>, acc_num = 5, acc_den = 99\<rparr>
   \<and> rate_estimator_run
       \<lparr>sample_size = 100, re_num = \<lparr>rd = []\<rparr>, re_den = \<lparr>rd = [60]\<rparr>,
        rate = \<lparr>buf = [], room = 1\<rparr>, acc_num = 5 :: int, acc_den = 99\<rparr>
     = Done \<lparr>sample_size = 100, re_num = \<lparr>rd = []\<rparr>, re_den = \<lparr>rd = [60]\<rparr>,
        rate = \<lparr>buf = [], room = 1\<rparr>, acc_num = 5, acc_den = 99\<rparr>
   \<and> rate_estimator_run
       \<lparr>sample_size = 100, re_num = \<lparr>rd = []\<rparr>, re_den = \<lparr>rd = [60]\<rparr>,
        rate = \<lparr>buf = [], room = 1\<rparr>, acc_num = 3 :: int, acc_den = 120\<rparr>
     = Done \<lparr>sample_size = 100, re_num = \<lparr>rd = []\<rparr>, re_den = \<lparr>rd = [60]\<rparr>,
        rate = \<lparr>buf = [FQuot 3 120], room = 0\<rparr>, acc_num = 0, acc_den = 0\<rparr>
   \<and> serializer_run 4
       \<lparr>nin = 1, nout = 1, ser_in = \<lparr>rd = []\<rparr>, ser_out = \<lparr>buf = [], room = 3\<rparr>\<rparr>
     = Done \<lparr>nin = 1, nout = 1, ser_in = \<lparr>rd = []\<rparr>, ser_out = \<lparr>buf = [], room = 3\<rparr>\<rparr>
   \<and> buffer_reader_run
       \<lparr>br_data = [1, 2, 3 :: int], br_count = 3, br_out = \<lparr>buf = [], room = 0\<rparr>, br_pos = 1\<rparr>
     = Done \<lparr>br_data = [1, 2, 3], br_count = 3, br_out = \<lparr>buf = [], room = 0\<rparr>, br_pos = 1\<rparr>
   \<and> buffer_writer_run
       \<lparr>bw_in = \<lparr>rd = []\<rparr>, bw_data = [0, 0 :: int], bw_count = 2, bw_pos = 0\<rparr>
     = Done \<lparr>bw_in = \<lparr>rd = []\<rparr>, bw_data = [0, 0], bw_count = 2, bw_pos = 0\<rparr>"
  using no_work [where sizeof_T = 4 and sizeof_Tout = 4
      and fr = "\<lparr>fr_loop = False, fdin = \<lparr>reads = [RData [1, 2, 3, 4]], seekable = False\<rparr>,
                fr_out = \<lparr>buf = [], room = 0\<rparr>\<rparr>"
      and fw = "\<lparr>fw_in = \<lparr>rd = []\<rparr>, fw_fdout = \<lparr>sink = [], writes = [WAccept 8]\<rparr>\<rparr>"
      and sprintf = "\<lambda>f v. Some (sprintf_d f v)"
      and fp = "\<lparr>scale = 1 :: int, decimation = 3, fp_in = \<lparr>rd = []\<rparr>, format = ''%d'',
                fp_fdout = \<lparr>sink = [], writes = [WAccept 8]\<rparr>, phase = 2\<rparr>"
      and fprintf_n = "\<lambda>f n. f" and fprintf_c = "\<lambda>f a b. f"
      and cp = "\<lparr>cp_scale = 1 :: int, cp_in = \<lparr>rd = []\<rparr>, head = ''h'', cp_format = ''f'',
                tail = ''t'', fout = Some []\<rparr>"
      and ic = "\<lparr>ic_in = \<lparr>rd = [5 :: int]\<rparr>, ic_out = \<lparr>buf = [] :: int list, room = 0\<rparr>\<rparr>"
      and dc = "\<lparr>d = 2, dec_in = \<lparr>rd = [1, 2, 3 :: int]\<rparr>, dec_out = \<lparr>buf = [], room = 0\<rparr>\<rparr>"
      and r = "\<lparr>sample_size = 100, re_num = \<lparr>rd = [3]\<rparr>, re_den = \<lparr>rd = [60]\<rparr>,
               rate = \<lparr>buf = [], room = 0\<rparr>, acc_num = 5 :: int, acc_den = 99\<rparr>"
      and r' = "\<lparr>sample_size = 100, re_num = \<lparr>rd = []\<rparr>, re_den = \<lparr>rd = [60]\<rparr>,
               rate = \<lparr>buf = [], room = 1\<rparr>, acc_num = 5 :: int, acc_den = 99\<rparr>"
      and r'' = "\<lparr>sample_size = 100, re_num = \<lparr>rd = []\<rparr>, re_den = \<lparr>rd = [60]\<rparr>,
               rate = \<lparr>buf = [], room = 1\<rparr>, acc_num = 3 :: int, acc_den = 120\<rparr>"
      and s = "\<lparr>nin = 1, nout = 1, ser_in = \<lparr>rd = []\<rparr>, ser_out = \<lparr>buf = [], room = 3\<rparr>\<rparr>"
      and br = "\<lparr>br_data = [1, 2, 3 :: int], br_count = 3, br_out = \<lparr>buf = [], room = 0\<rparr>,
                br_pos = 1\<rparr>"
      and bw = "\<lparr>bw_in = \<lparr>rd = []\<rparr>, bw_data = [0, 0 :: int], bw_count = 2, bw_pos = 0\<rparr>"]
  by (simp add: readable_def writable_def write_elem_def written_def)

text \<open>
  C9 as stated fails for the rate estimator. A new estimator (threshold 10000) reads
  the pair (3, 120) and keeps the sums 3 and 120. \<^verbatim>\<open>sample_size\<close> is a public field;
  once it is set to 100, an invocation that finds both inputs empty writes the value
  3/120 and sets both sums to zero. And a new estimator whose \<^verbatim>\<open>sample_size\<close> is
  set to 0 writes a value in an invocation that finds both inputs empty.
\<close>

theorem no_work_counterexample:
  "rate_estimator_run
     (rate_estimator_ctor \<lparr>rd = [3]\<rparr> \<lparr>rd = [120]\<rparr> \<lparr>buf = [], room = 4\<rparr> :: int rate_estimator)
   = Done \<lparr>sample_size = 10000, re_num = \<lparr>rd = []\<rparr>, re_den = \<lparr>rd = []\<rparr>,
          rate = \<lparr>buf = [], room = 4\<rparr>, acc_num = 3, acc_den = 120\<rparr>
   \<and> readable (re_num \<lparr>sample_size = 100, re_num = \<lparr>rd = []\<rparr>, re_den = \<lparr>rd = []\<rparr>,
          rate = \<lparr>buf = [], room = 4\<rparr>, acc_num = 3 :: int, acc_den = 120\<rparr>) = 0
   \<and> rate_estimator_run
       \<lparr>sample_size = 100, re_num = \<lparr>rd = []\<rparr>, re_den = \<lparr>rd = []\<rparr>,
        rate = \<lparr>buf = [], room = 4\<rparr>, acc_num = 3 :: int, acc_den = 120\<rparr>
     = Done \<lparr>sample_size = 100, re_num = \<lparr>rd = []\<rparr>, re_den = \<lparr>rd = []\<rparr>,
            rate = \<lparr>buf = [FQuot 3 120], room = 3\<rparr>, acc_num = 0, acc_den = 0\<rparr>
   \<and> rate_estimator_run
       ((rate_estimator_ctor \<lparr>rd = []\<rparr> \<lparr>rd = []\<rparr> \<lparr>buf = [], room = 1\<rparr>)
          \<lparr>sample_size := 0\<rparr> :: int rate_estimator)
     = Done \<lparr>sample_size = 0, re_num = \<lparr>rd = []\<rparr>, re_den = \<lparr>rd = []\<rparr>,
            rate = \<lparr>buf = [FQuot 0 0], room = 0\<rparr>, acc_num = 0, acc_den = 0\<rparr>"
  by (simp add: rate_estimator_ctor_def rate_estimator_run_def readable_def writable_def
      read_def write_elem_def written_def)

end
